theory Spec2Isabelle
  imports Main
begin

section \<open>Data model\<close>

text \<open>
  Errors are values. The first four are the store errors of the specification's taxonomy;
  \<open>NilPointerPanic\<close> stands for the Go runtime panic of dereferencing a nil replica set.
\<close>

datatype error =
    TransientStoreError
  | ConflictError
  | NotFoundError
  | AlreadyExistsError
  | NilPointerPanic

text \<open>
  \<open>extensions.ReplicaSet\<close>, restricted to the attributes of the specification's data
  model: \<open>Spec_Replicas\<close> is \<open>rs.Spec.Replicas\<close> (the desired count),
  \<open>Status_Replicas\<close> the observed count. A pointer \<open>*extensions.ReplicaSet\<close> that may be
  nil is a \<open>ReplicaSet option\<close>.
\<close>

record ReplicaSet =
  Name :: string
  TemplateHash :: string
  Spec_Replicas :: int
  Status_Replicas :: int
  Status_AvailableReplicas :: int

text \<open>\<open>extensions.Deployment\<close>: \<open>Deployment_Replicas\<close> is \<open>deployment.Spec.Replicas\<close>.\<close>

record Deployment =
  Deployment_Name :: string
  Template :: string
  Deployment_Replicas :: int
  RevisionHistoryLimit :: nat
  Generation :: nat

section \<open>The controller's collaborators\<close>

text \<open>
  \<open>rolloutRecreate\<close> is a method of \<open>DeploymentController\<close> and calls five other methods
  of it, none of which is defined in \<open>recreate.go\<close>. They are the fields of the record
  below, over an arbitrary state \<open>'s\<close> that every call receives and returns (the cluster
  store, and whatever else a call may change). Each field returns what the Go method
  returns, in the same order, with the \<open>error\<close> result as an \<open>error option\<close>
  (\<open>None\<close> is Go's \<open>nil\<close>).
\<close>

record 's DeploymentController =
  getAllReplicaSetsAndSyncRevision ::
    "Deployment \<Rightarrow> bool \<Rightarrow> 's \<Rightarrow> (ReplicaSet option \<times> ReplicaSet list \<times> error option) \<times> 's"
  scaleReplicaSetAndRecordEvent ::
    "ReplicaSet option \<Rightarrow> int \<Rightarrow> Deployment \<Rightarrow> 's
      \<Rightarrow> (bool \<times> ReplicaSet option \<times> error option) \<times> 's"
  updateDeploymentStatus ::
    "ReplicaSet option list \<Rightarrow> ReplicaSet option \<Rightarrow> Deployment \<Rightarrow> 's \<Rightarrow> error option \<times> 's"
  syncDeploymentStatus ::
    "ReplicaSet option list \<Rightarrow> ReplicaSet option \<Rightarrow> Deployment \<Rightarrow> 's \<Rightarrow> error option \<times> 's"
  cleanupDeployment ::
    "ReplicaSet list \<Rightarrow> Deployment \<Rightarrow> 's \<Rightarrow> error option \<times> 's"

text \<open>
  Modelled from the spec: \<open>controller.FilterActiveReplicaSets\<close> is not in the sources at
  hand. The specification (4.3, rule 2) keeps the old replica sets that are still active:
  desired or observed replicas above zero.
\<close>

definition FilterActiveReplicaSets :: "ReplicaSet list \<Rightarrow> ReplicaSet list" where
  "FilterActiveReplicaSets replicaSets =
     filter (\<lambda>rs. 0 < Spec_Replicas rs \<or> 0 < Status_Replicas rs) replicaSets"

section \<open>recreate.go\<close>

text \<open>
  The loop of \<open>scaleDownOldReplicaSetsForRecreate\<close> (lines 72 to 85), with the local
  variable \<open>scaled\<close> as an argument: a replica set with \<open>Spec.Replicas = 0\<close> is skipped, the
  first error ends the loop with \<open>(false, err)\<close>.
\<close>

fun scaleDownOldReplicaSetsForRecreate_loop ::
  "'s DeploymentController \<Rightarrow> ReplicaSet list \<Rightarrow> Deployment \<Rightarrow> bool \<Rightarrow> 's
    \<Rightarrow> (bool \<times> error option) \<times> 's" where
  "scaleDownOldReplicaSetsForRecreate_loop dc [] deployment scaled s = ((scaled, None), s)"
| "scaleDownOldReplicaSetsForRecreate_loop dc (rs # oldRSs) deployment scaled s =
     (if Spec_Replicas rs = 0
      then scaleDownOldReplicaSetsForRecreate_loop dc oldRSs deployment scaled s
      else
        (case scaleReplicaSetAndRecordEvent dc (Some rs) 0 deployment s of
           ((scaledRS, _, err), s') \<Rightarrow>
             (case err of
                Some e \<Rightarrow> ((False, Some e), s')
              | None \<Rightarrow>
                  scaleDownOldReplicaSetsForRecreate_loop dc oldRSs deployment
                    (if scaledRS then True else scaled) s')))"

definition scaleDownOldReplicaSetsForRecreate ::
  "'s DeploymentController \<Rightarrow> ReplicaSet list \<Rightarrow> Deployment \<Rightarrow> 's
    \<Rightarrow> (bool \<times> error option) \<times> 's" where
  "scaleDownOldReplicaSetsForRecreate dc oldRSs deployment s =
     scaleDownOldReplicaSetsForRecreate_loop dc oldRSs deployment False s"

definition scaleUpNewReplicaSetForRecreate ::
  "'s DeploymentController \<Rightarrow> ReplicaSet option \<Rightarrow> Deployment \<Rightarrow> 's
    \<Rightarrow> (bool \<times> error option) \<times> 's" where
  "scaleUpNewReplicaSetForRecreate dc newRS deployment s =
     (case scaleReplicaSetAndRecordEvent dc newRS (Deployment_Replicas deployment) deployment s of
        ((scaled, _, err), s') \<Rightarrow> ((scaled, err), s'))"

text \<open>
  Lines 53 to 66 of \<open>rolloutRecreate\<close>: scale up, the second barrier, cleanup (its error is
  dropped), final status.
\<close>

definition rolloutRecreate_scaleUp ::
  "'s DeploymentController \<Rightarrow> Deployment \<Rightarrow> ReplicaSet option \<Rightarrow> ReplicaSet list
    \<Rightarrow> ReplicaSet option list \<Rightarrow> 's \<Rightarrow> error option \<times> 's" where
  "rolloutRecreate_scaleUp dc deployment newRS oldRSs allRSs s =
     (case scaleUpNewReplicaSetForRecreate dc newRS deployment s of
        ((scaledUp, err), s1) \<Rightarrow>
          (case err of
             Some e \<Rightarrow> (Some e, s1)
           | None \<Rightarrow>
               if scaledUp then updateDeploymentStatus dc allRSs newRS deployment s1
               else
                 (case cleanupDeployment dc oldRSs deployment s1 of
                    (_, s2) \<Rightarrow> syncDeploymentStatus dc allRSs newRS deployment s2)))"

text \<open>
  \<open>rolloutRecreate\<close>, lines 25 to 51, then the part above. \<open>allRSs\<close> is
  \<open>append(oldRSs, newRS)\<close>: the old replica sets followed by the pointer \<open>newRS\<close>, nil or not.
\<close>

definition rolloutRecreate ::
  "'s DeploymentController \<Rightarrow> Deployment \<Rightarrow> 's \<Rightarrow> error option \<times> 's" where
  "rolloutRecreate dc deployment s =
     (case getAllReplicaSetsAndSyncRevision dc deployment False s of
        ((newRS, oldRSs, err), s1) \<Rightarrow>
          (case err of
             Some e \<Rightarrow> (Some e, s1)
           | None \<Rightarrow>
               (case scaleDownOldReplicaSetsForRecreate dc (FilterActiveReplicaSets oldRSs)
                       deployment s1 of
                  ((scaledDown, err2), s2) \<Rightarrow>
                    (case err2 of
                       Some e \<Rightarrow> (Some e, s2)
                     | None \<Rightarrow>
                         if scaledDown
                         then updateDeploymentStatus dc (map Some oldRSs @ [newRS]) newRS
                                deployment s2
                         else if newRS = None
                         then
                           (case getAllReplicaSetsAndSyncRevision dc deployment True s2 of
                              ((newRS', oldRSs', err3), s3) \<Rightarrow>
                                (case err3 of
                                   Some e \<Rightarrow> (Some e, s3)
                                 | None \<Rightarrow>
                                     rolloutRecreate_scaleUp dc deployment newRS' oldRSs'
                                       (map Some oldRSs' @ [newRS']) s3))
                         else
                           rolloutRecreate_scaleUp dc deployment newRS oldRSs
                             (map Some oldRSs @ [newRS]) s2))))"

section \<open>Observing the calls of a pass\<close>

text \<open>
  One entry per call of a collaborator: its arguments (the deployment apart) and what it
  returned. \<open>recording dc\<close> is the controller \<open>dc\<close> whose state carries the list of the
  calls made so far, oldest first; it changes no result and no state of \<open>dc\<close>.
\<close>

datatype call =
    GetAllReplicaSets bool "ReplicaSet option" "ReplicaSet list" "error option"
  | ScaleReplicaSet "ReplicaSet option" int bool "error option"
  | UpdateStatus "ReplicaSet option list" "ReplicaSet option" "error option"
  | SyncStatus "ReplicaSet option list" "ReplicaSet option" "error option"
  | Cleanup "ReplicaSet list" "error option"

definition recording :: "'s DeploymentController \<Rightarrow> ('s \<times> call list) DeploymentController" where
  "recording dc =
     \<lparr> getAllReplicaSetsAndSyncRevision = (\<lambda>deployment createIfNotExisted (s, tr).
         (case getAllReplicaSetsAndSyncRevision dc deployment createIfNotExisted s of
            ((newRS, oldRSs, err), s') \<Rightarrow>
              ((newRS, oldRSs, err),
               (s', tr @ [GetAllReplicaSets createIfNotExisted newRS oldRSs err])))),
       scaleReplicaSetAndRecordEvent = (\<lambda>rs newScale deployment (s, tr).
         (case scaleReplicaSetAndRecordEvent dc rs newScale deployment s of
            ((scaled, rs', err), s') \<Rightarrow>
              ((scaled, rs', err), (s', tr @ [ScaleReplicaSet rs newScale scaled err])))),
       updateDeploymentStatus = (\<lambda>allRSs newRS deployment (s, tr).
         (case updateDeploymentStatus dc allRSs newRS deployment s of
            (err, s') \<Rightarrow> (err, (s', tr @ [UpdateStatus allRSs newRS err])))),
       syncDeploymentStatus = (\<lambda>allRSs newRS deployment (s, tr).
         (case syncDeploymentStatus dc allRSs newRS deployment s of
            (err, s') \<Rightarrow> (err, (s', tr @ [SyncStatus allRSs newRS err])))),
       cleanupDeployment = (\<lambda>oldRSs deployment (s, tr).
         (case cleanupDeployment dc oldRSs deployment s of
            (err, s') \<Rightarrow> (err, (s', tr @ [Cleanup oldRSs err])))) \<rparr>"

text \<open>The calls of one pass from state \<open>s\<close>, and the pass's result.\<close>

definition calls_of_pass :: "'s DeploymentController \<Rightarrow> Deployment \<Rightarrow> 's \<Rightarrow> call list" where
  "calls_of_pass dc deployment s = snd (snd (rolloutRecreate (recording dc) deployment (s, [])))"

fun is_GetAllReplicaSets :: "call \<Rightarrow> bool" where
  "is_GetAllReplicaSets (GetAllReplicaSets _ _ _ _) = True"
| "is_GetAllReplicaSets _ = False"

fun is_creating :: "call \<Rightarrow> bool" where
  "is_creating (GetAllReplicaSets createIfNotExisted _ _ _) = createIfNotExisted"
| "is_creating _ = False"

fun is_ScaleReplicaSet :: "call \<Rightarrow> bool" where
  "is_ScaleReplicaSet (ScaleReplicaSet _ _ _ _) = True"
| "is_ScaleReplicaSet _ = False"

fun is_status :: "call \<Rightarrow> bool" where
  "is_status (UpdateStatus _ _ _) = True"
| "is_status (SyncStatus _ _ _) = True"
| "is_status _ = False"

fun is_Cleanup :: "call \<Rightarrow> bool" where
  "is_Cleanup (Cleanup _ _) = True"
| "is_Cleanup _ = False"

text \<open>The error a call returned, and whether a scaling call reported that it scaled.\<close>

fun call_error :: "call \<Rightarrow> error option" where
  "call_error (GetAllReplicaSets _ _ _ err) = err"
| "call_error (ScaleReplicaSet _ _ _ err) = err"
| "call_error (UpdateStatus _ _ err) = err"
| "call_error (SyncStatus _ _ err) = err"
| "call_error (Cleanup _ err) = err"

fun call_scaled :: "call \<Rightarrow> bool" where
  "call_scaled (ScaleReplicaSet _ _ scaled _) = scaled"
| "call_scaled _ = False"

section \<open>The collaborators, from the specification\<close>

text \<open>
  The five methods and the store behind them are not in the sources at hand. This section
  models them from the specification, on an explicit cluster state: the stored replica
  sets of the deployment (most recent first), the persisted status, the recorded events,
  \<open>operations\<close>, the store operations issued so far (section 6 of the specification, and
  the status write), and \<open>faults\<close>, the script of the store's answers to come: each store
  operation takes the head of the script, \<open>Some e\<close> makes it fail with \<open>e\<close>, \<open>None\<close> or
  an empty script lets it succeed.
\<close>

record DeploymentStatus =
  ObservedGeneration :: nat
  Replicas :: int
  UpdatedReplicas :: int
  AvailableReplicas :: int
  UnavailableReplicas :: int

datatype action = ScaledUp | ScaledDown

record scaling_event =
  subject :: string
  scaling :: action
  fromCount :: int
  toCount :: int

datatype store_op =
    ListOp
  | CreateOp ReplicaSet
  | ConditionalUpdateOp ReplicaSet int
  | DeleteOp ReplicaSet
  | StatusWriteOp

record world =
  store :: "ReplicaSet list"
  status :: "DeploymentStatus option"
  events :: "scaling_event list"
  operations :: "store_op list"
  faults :: "error option list"

definition store_call :: "store_op \<Rightarrow> world \<Rightarrow> error option \<times> world" where
  "store_call op w =
     (case faults w of
        [] \<Rightarrow> (None, w\<lparr>operations := operations w @ [op]\<rparr>)
      | f # fs \<Rightarrow> (f, w\<lparr>operations := operations w @ [op], faults := fs\<rparr>))"

text \<open>
  Modelled from the spec: the classification of section 3 and of the glossary, by the
  template hash. The first replica set with the deployment's template hash is the new
  one; the replica sets with another hash are old, in the order of the store. (The data
  model has at most one replica set with the current hash; the resolver leaves a second
  one alone.)
\<close>

definition FindNewReplicaSet :: "Deployment \<Rightarrow> ReplicaSet list \<Rightarrow> ReplicaSet option" where
  "FindNewReplicaSet deployment rss = find (\<lambda>rs. TemplateHash rs = Template deployment) rss"

definition FindOldReplicaSets :: "Deployment \<Rightarrow> ReplicaSet list \<Rightarrow> ReplicaSet list" where
  "FindOldReplicaSets deployment rss =
     filter (\<lambda>rs. TemplateHash rs \<noteq> Template deployment) rss"

text \<open>
  Modelled from the spec: the store's \<open>conditionalUpdate\<close> of section 6, a compare and
  swap. The first stored object equal to the one the caller read is replaced; when the
  store holds no such object any more the update is refused (\<open>None\<close>).
\<close>

fun conditionalUpdate :: "ReplicaSet \<Rightarrow> ReplicaSet \<Rightarrow> ReplicaSet list \<Rightarrow> ReplicaSet list option" where
  "conditionalUpdate expected updated [] = None"
| "conditionalUpdate expected updated (rs # rss) =
     (if rs = expected then Some (updated # rss)
      else map_option ((#) rs) (conditionalUpdate expected updated rss))"

text \<open>
  Modelled from the spec: the Generation Resolver of section 4.1. It lists the replica
  sets and classifies them; in its second mode it creates a replica set with zero desired
  replicas when none matches the template, and returns it. A failing store operation is
  returned as the error, with no replica sets.
\<close>

definition newReplicaSetFor :: "Deployment \<Rightarrow> ReplicaSet" where
  "newReplicaSetFor deployment =
     \<lparr> Name = Deployment_Name deployment @ ''-'' @ Template deployment,
       TemplateHash = Template deployment,
       Spec_Replicas = 0, Status_Replicas = 0, Status_AvailableReplicas = 0 \<rparr>"

definition spec_getAllReplicaSetsAndSyncRevision ::
  "Deployment \<Rightarrow> bool \<Rightarrow> world \<Rightarrow> (ReplicaSet option \<times> ReplicaSet list \<times> error option) \<times> world" where
  "spec_getAllReplicaSetsAndSyncRevision deployment createIfNotExisted w =
     (case store_call ListOp w of
        (Some e, w1) \<Rightarrow> ((None, [], Some e), w1)
      | (None, w1) \<Rightarrow>
          (let newRS = FindNewReplicaSet deployment (store w1);
               oldRSs = FindOldReplicaSets deployment (store w1)
           in if newRS = None \<and> createIfNotExisted
              then
                (case store_call (CreateOp (newReplicaSetFor deployment)) w1 of
                   (Some e, w2) \<Rightarrow> ((None, [], Some e), w2)
                 | (None, w2) \<Rightarrow>
                     ((Some (newReplicaSetFor deployment), oldRSs, None),
                      w2\<lparr>store := newReplicaSetFor deployment # store w2\<rparr>))
              else ((newRS, oldRSs, None), w1)))"

text \<open>
  Modelled from the spec: the Scaling Executor of section 4.2. At the target count it does
  nothing and returns \<open>didScale = false\<close>; otherwise it issues one conditional update of
  the desired count and records an event; a store error or a refused update is returned.
  A nil replica set cannot be read: the Go method panics.
\<close>

definition spec_scaleReplicaSetAndRecordEvent ::
  "ReplicaSet option \<Rightarrow> int \<Rightarrow> Deployment \<Rightarrow> world
    \<Rightarrow> (bool \<times> ReplicaSet option \<times> error option) \<times> world" where
  "spec_scaleReplicaSetAndRecordEvent rsp targetCount deployment w =
     (case rsp of
        None \<Rightarrow> ((False, None, Some NilPointerPanic), w)
      | Some rs \<Rightarrow>
          if Spec_Replicas rs = targetCount then ((False, Some rs, None), w)
          else
            (case store_call (ConditionalUpdateOp rs targetCount) w of
               (Some e, w1) \<Rightarrow> ((False, Some rs, Some e), w1)
             | (None, w1) \<Rightarrow>
                 (case conditionalUpdate rs (rs\<lparr>Spec_Replicas := targetCount\<rparr>) (store w1) of
                    None \<Rightarrow> ((False, Some rs, Some ConflictError), w1)
                  | Some rss \<Rightarrow>
                      ((True, Some (rs\<lparr>Spec_Replicas := targetCount\<rparr>), None),
                       w1\<lparr>store := rss,
                          events := events w1 @
                            [\<lparr> subject = Name rs,
                               scaling = (if Spec_Replicas rs < targetCount then ScaledUp
                                          else ScaledDown),
                               fromCount = Spec_Replicas rs, toCount = targetCount \<rparr>]\<rparr>))))"

text \<open>
  Modelled from the spec: the Status Synchronizer of section 4.4, an aggregation of the
  observed counts of the replica sets it is given (a nil entry counts for nothing), then
  one write. Both status methods of the controller are this one.
\<close>

definition calculateStatus ::
  "ReplicaSet option list \<Rightarrow> ReplicaSet option \<Rightarrow> Deployment \<Rightarrow> DeploymentStatus" where
  "calculateStatus allRSs newRS deployment =
     \<lparr> ObservedGeneration = Generation deployment,
       Replicas = sum_list (map Status_Replicas (List.map_filter (\<lambda>p. p) allRSs)),
       UpdatedReplicas = (case newRS of None \<Rightarrow> 0 | Some rs \<Rightarrow> Status_Replicas rs),
       AvailableReplicas =
         sum_list (map Status_AvailableReplicas (List.map_filter (\<lambda>p. p) allRSs)),
       UnavailableReplicas =
         sum_list (map Status_Replicas (List.map_filter (\<lambda>p. p) allRSs))
         - sum_list (map Status_AvailableReplicas (List.map_filter (\<lambda>p. p) allRSs)) \<rparr>"

definition computeAndPersist ::
  "ReplicaSet option list \<Rightarrow> ReplicaSet option \<Rightarrow> Deployment \<Rightarrow> world \<Rightarrow> error option \<times> world" where
  "computeAndPersist allRSs newRS deployment w =
     (case store_call StatusWriteOp w of
        (Some e, w1) \<Rightarrow> (Some e, w1)
      | (None, w1) \<Rightarrow> (None, w1\<lparr>status := Some (calculateStatus allRSs newRS deployment)\<rparr>))"

text \<open>
  Modelled from the spec: the Cleanup Policy Enforcer of section 4.5. Of the old replica
  sets beyond the retention limit, oldest first, it deletes those with zero desired and
  zero observed replicas; a replica set that is not found is skipped, another error ends
  the batch (section 7).
\<close>

fun deleteReplicaSets :: "ReplicaSet list \<Rightarrow> world \<Rightarrow> error option \<times> world" where
  "deleteReplicaSets [] w = (None, w)"
| "deleteReplicaSets (rs # rss) w =
     (case store_call (DeleteOp rs) w of
        (Some e, w1) \<Rightarrow> if e = NotFoundError then deleteReplicaSets rss w1 else (Some e, w1)
      | (None, w1) \<Rightarrow> deleteReplicaSets rss (w1\<lparr>store := remove1 rs (store w1)\<rparr>))"

definition spec_cleanupDeployment ::
  "ReplicaSet list \<Rightarrow> Deployment \<Rightarrow> world \<Rightarrow> error option \<times> world" where
  "spec_cleanupDeployment oldRSs deployment w =
     deleteReplicaSets
       (filter (\<lambda>rs. Spec_Replicas rs = 0 \<and> Status_Replicas rs = 0)
          (rev (drop (RevisionHistoryLimit deployment) oldRSs))) w"

definition specified_controller :: "world DeploymentController" where
  "specified_controller =
     \<lparr> getAllReplicaSetsAndSyncRevision = spec_getAllReplicaSetsAndSyncRevision,
       scaleReplicaSetAndRecordEvent = spec_scaleReplicaSetAndRecordEvent,
       updateDeploymentStatus = computeAndPersist,
       syncDeploymentStatus = computeAndPersist,
       cleanupDeployment = spec_cleanupDeployment \<rparr>"

section \<open>The calls of a pass, written out\<close>

text \<open>
  The calls that the loop of the scale-down, the second half of a pass, and a whole pass
  make, as functions of the controller: the lemmas below show that they are what
  \<open>recording\<close> observes.
\<close>

definition calls_of_scaleDown ::
  "'s DeploymentController \<Rightarrow> ReplicaSet list \<Rightarrow> Deployment \<Rightarrow> 's \<Rightarrow> call list" where
  "calls_of_scaleDown dc oldRSs deployment s =
     snd (snd (scaleDownOldReplicaSetsForRecreate (recording dc) oldRSs deployment (s, [])))"

fun scaleDown_calls :: "'s DeploymentController \<Rightarrow> ReplicaSet list \<Rightarrow> Deployment \<Rightarrow> 's \<Rightarrow> call list" where
  "scaleDown_calls dc [] d s = []"
| "scaleDown_calls dc (rs # oldRSs) d s =
     (if Spec_Replicas rs = 0 then scaleDown_calls dc oldRSs d s
      else
        (case scaleReplicaSetAndRecordEvent dc (Some rs) 0 d s of
           ((scaledRS, _, err), s') \<Rightarrow>
             ScaleReplicaSet (Some rs) 0 scaledRS err #
               (case err of Some e \<Rightarrow> [] | None \<Rightarrow> scaleDown_calls dc oldRSs d s')))"

definition scaleUp_calls :: "'s DeploymentController \<Rightarrow> Deployment \<Rightarrow> ReplicaSet option \<Rightarrow> ReplicaSet list
    \<Rightarrow> ReplicaSet option list \<Rightarrow> 's \<Rightarrow> call list" where
  "scaleUp_calls dc d newRS oldRSs allRSs s =
     (case scaleReplicaSetAndRecordEvent dc newRS (Deployment_Replicas d) d s of
        ((scaledUp, _, err), s1) \<Rightarrow>
          ScaleReplicaSet newRS (Deployment_Replicas d) scaledUp err #
          (case err of
             Some e \<Rightarrow> []
           | None \<Rightarrow>
               if scaledUp then [UpdateStatus allRSs newRS (fst (updateDeploymentStatus dc allRSs newRS d s1))]
               else
                 (case cleanupDeployment dc oldRSs d s1 of
                    (cerr, s2) \<Rightarrow> [Cleanup oldRSs cerr, SyncStatus allRSs newRS (fst (syncDeploymentStatus dc allRSs newRS d s2))])))"

definition pass_calls :: "'s DeploymentController \<Rightarrow> Deployment \<Rightarrow> 's \<Rightarrow> call list" where
  "pass_calls dc d s =
     (case getAllReplicaSetsAndSyncRevision dc d False s of
        ((newRS, oldRSs, err), s1) \<Rightarrow>
          GetAllReplicaSets False newRS oldRSs err #
          (case err of
             Some e \<Rightarrow> []
           | None \<Rightarrow>
               scaleDown_calls dc (FilterActiveReplicaSets oldRSs) d s1 @
               (case scaleDownOldReplicaSetsForRecreate dc (FilterActiveReplicaSets oldRSs) d s1 of
                  ((scaledDown, err2), s2) \<Rightarrow>
                    (case err2 of
                       Some e \<Rightarrow> []
                     | None \<Rightarrow>
                         if scaledDown
                         then [UpdateStatus (map Some oldRSs @ [newRS]) newRS
                                 (fst (updateDeploymentStatus dc (map Some oldRSs @ [newRS]) newRS d s2))]
                         else if newRS = None
                         then
                           (case getAllReplicaSetsAndSyncRevision dc d True s2 of
                              ((newRS', oldRSs', err3), s3) \<Rightarrow>
                                GetAllReplicaSets True newRS' oldRSs' err3 #
                                (case err3 of
                                   Some e \<Rightarrow> []
                                 | None \<Rightarrow>
                                     scaleUp_calls dc d newRS' oldRSs' (map Some oldRSs' @ [newRS']) s3))
                         else scaleUp_calls dc d newRS oldRSs (map Some oldRSs @ [newRS]) s2))))"

section \<open>Example states\<close>

definition replica_set :: "string \<Rightarrow> string \<Rightarrow> int \<Rightarrow> int \<Rightarrow> ReplicaSet" where
  "replica_set name hash desired observed =
     \<lparr> Name = name, TemplateHash = hash, Spec_Replicas = desired, Status_Replicas = observed,
       Status_AvailableReplicas = observed \<rparr>"

definition world_of :: "ReplicaSet list \<Rightarrow> error option list \<Rightarrow> world" where
  "world_of rss script =
     \<lparr> store = rss, status = None, events = [], operations = [], faults = script \<rparr>"

definition web :: Deployment where
  "web = \<lparr> Deployment_Name = ''web'', Template = ''v3'', Deployment_Replicas = 5,
           RevisionHistoryLimit = 1, Generation = 7 \<rparr>"

text \<open>
  A resolution or a scaling call that returned an error: the calls whose error ends the
  pass. (The status calls end it too, but as its last call; the error of the cleanup is
  dropped.)
\<close>

definition phase_failed :: "call \<Rightarrow> bool" where
  "phase_failed c = ((is_GetAllReplicaSets c \<or> is_ScaleReplicaSet c) \<and> call_error c \<noteq> None)"

section \<open>Stored states\<close>

text \<open>
  The stored state overlaps when an old replica set and the new one both have a desired
  count above zero. It is stable when every old replica set has a desired count of zero
  and the new replica set exists with the deployment's desired count.
\<close>

definition overlap :: "Deployment \<Rightarrow> ReplicaSet list \<Rightarrow> bool" where
  "overlap deployment rss =
     (list_ex (\<lambda>old. 0 < Spec_Replicas old) (FindOldReplicaSets deployment rss) \<and>
      (case FindNewReplicaSet deployment rss of
         None \<Rightarrow> False
       | Some new \<Rightarrow> 0 < Spec_Replicas new))"

definition stable :: "Deployment \<Rightarrow> ReplicaSet list \<Rightarrow> bool" where
  "stable deployment rss =
     (list_all (\<lambda>old. Spec_Replicas old = 0) (FindOldReplicaSets deployment rss) \<and>
      (case FindNewReplicaSet deployment rss of
         None \<Rightarrow> False
       | Some new \<Rightarrow> Spec_Replicas new = Deployment_Replicas deployment))"

text \<open>The status that a pass computes for a stored state: its status output.\<close>

definition status_of :: "Deployment \<Rightarrow> ReplicaSet list \<Rightarrow> DeploymentStatus" where
  "status_of deployment rss =
     calculateStatus
       (map Some (FindOldReplicaSets deployment rss) @ [FindNewReplicaSet deployment rss])
       (FindNewReplicaSet deployment rss) deployment"

text \<open>The available replicas of a replica set are among its observed replicas.\<close>

definition counts_consistent :: "ReplicaSet list \<Rightarrow> bool" where
  "counts_consistent rss =
     list_all (\<lambda>rs. 0 \<le> Status_AvailableReplicas rs \<and>
                     Status_AvailableReplicas rs \<le> Status_Replicas rs) rss"

text \<open>The store operations that change a desired count or create a replica set.\<close>

fun is_scaling_op :: "store_op \<Rightarrow> bool" where
  "is_scaling_op (ConditionalUpdateOp _ _) = True"
| "is_scaling_op _ = False"

fun is_create_op :: "store_op \<Rightarrow> bool" where
  "is_create_op (CreateOp _) = True"
| "is_create_op _ = False"

text \<open>The first store operation to come succeeds.\<close>

definition next_succeeds :: "world \<Rightarrow> bool" where
  "next_succeeds w = (case faults w of [] \<Rightarrow> True | f # _ \<Rightarrow> f = None)"

text \<open>
  \<open>lowered rss rss'\<close>: the replica sets of \<open>rss'\<close> are those of \<open>rss\<close>, some of them with
  their desired count set to zero.
\<close>

definition lowered :: "ReplicaSet list \<Rightarrow> ReplicaSet list \<Rightarrow> bool" where
  "lowered rss rss' = list_all2 (\<lambda>a b. b = a \<or> b = a\<lparr>Spec_Replicas := 0\<rparr>) rss rss'"

text \<open>
  The states observed between passes: the pass runs once for each script of store
  answers, from the state that the pass before left.
\<close>

fun passes :: "Deployment \<Rightarrow> error option list list \<Rightarrow> world \<Rightarrow> world list" where
  "passes deployment [] w = [w]"
| "passes deployment (script # scripts) w =
     w # passes deployment scripts
           (snd (rolloutRecreate specified_controller deployment (w\<lparr>faults := script\<rparr>)))"

text \<open>The store operations issued so far that scale or create a replica set.\<close>

definition scaling_operations :: "world \<Rightarrow> store_op list" where
  "scaling_operations w = filter (\<lambda>op. is_scaling_op op \<or> is_create_op op) (operations w)"

text \<open>The create operations issued so far.\<close>

definition creations :: "world \<Rightarrow> store_op list" where
  "creations w = filter is_create_op (operations w)"

section \<open>The OpenStack routes: DeleteRoute\<close>

text \<open>
  \<open>routers.Route\<close> and \<open>routers.Router\<close> of the networking library, and the
  \<open>cloudprovider.Route\<close> that \<open>DeleteRoute\<close> receives, with the fields the function reads.
\<close>

record routers_Route =
  DestinationCIDR :: string
  NextHop :: string

record Router =
  ID :: string
  Routes :: "routers_Route list"

record cloudprovider_Route =
  Route_Name :: string
  Route_TargetInstance :: string
  Route_DestinationCIDR :: string

text \<open>
  A Go slice expression \<open>s[:high]\<close> or \<open>s[low:]\<close> panics at run time when the bound is
  negative or beyond the slice; the panic is the left summand.
\<close>

datatype panic = SliceBoundsOutOfRange int

definition slice_to :: "'a list \<Rightarrow> int \<Rightarrow> panic + 'a list" where
  "slice_to xs high =
     (if high < 0 \<or> int (length xs) < high then Inl (SliceBoundsOutOfRange high)
      else Inr (take (nat high) xs))"

definition slice_from :: "'a list \<Rightarrow> int \<Rightarrow> panic + 'a list" where
  "slice_from xs low =
     (if low < 0 \<or> int (length xs) < low then Inl (SliceBoundsOutOfRange low)
      else Inr (drop (nat low) xs))"

text \<open>
  Lines 127 to 133: \<open>index\<close> starts at \<open>-1\<close> and becomes the position of the first route
  with the destination searched for; \<open>i\<close> is the position of the head of the list.
\<close>

fun DeleteRoute_index :: "routers_Route list \<Rightarrow> string \<Rightarrow> int \<Rightarrow> int" where
  "DeleteRoute_index [] cidr i = - 1"
| "DeleteRoute_index (r # rs) cidr i =
     (if DestinationCIDR r = cidr then i else DeleteRoute_index rs cidr (i + 1))"

text \<open>
  \<open>DeleteRoute\<close>. The two calls into the networking library are parameters: \<open>got\<close> is
  what \<open>routers.Get(...).Extract()\<close> returned, \<open>update\<close> the error of
  \<open>routers.Update(...).Extract()\<close> for a router identifier and a list of routes. The
  result is the returned error, or the panic of a slice expression.
\<close>

definition DeleteRoute ::
  "error + Router \<Rightarrow> (string \<Rightarrow> routers_Route list \<Rightarrow> error option) \<Rightarrow> cloudprovider_Route
    \<Rightarrow> panic + error option" where
  "DeleteRoute got update route =
     (case got of
        Inl err \<Rightarrow> Inr (Some err)
      | Inr router \<Rightarrow>
          (let index = DeleteRoute_index (Routes router) (Route_DestinationCIDR route) 0 in
           case slice_to (Routes router) index of
             Inl p \<Rightarrow> Inl p
           | Inr front \<Rightarrow>
               (case slice_from (Routes router) (index + 1) of
                  Inl p \<Rightarrow> Inl p
                | Inr back \<Rightarrow> Inr (update (ID router) (front @ back)))))"

section \<open>DeleteRoute: the index of the slice\<close>

text \<open>
  C10. The claim is that \<open>DeleteRoute\<close> never reaches its slice expression with the index
  still at \<open>-1\<close>. It does whenever the router has no route with the destination asked
  for: here a router with one route to another destination. The search leaves \<open>index\<close>
  at \<open>-1\<close>, nothing tests it, and \<open>router.Routes[:index]\<close> panics; the router is never
  updated.
\<close>

theorem DeleteRoute_absent_route_panics:
  "DeleteRoute_index
     [\<lparr>DestinationCIDR = ''10.0.1.0/24'', NextHop = ''192.168.0.2''\<rparr>] ''10.0.2.0/24'' 0 = - 1
   \<and> DeleteRoute
       (Inr \<lparr>ID = ''router-1'',
             Routes = [\<lparr>DestinationCIDR = ''10.0.1.0/24'', NextHop = ''192.168.0.2''\<rparr>]\<rparr>)
       (\<lambda>router_id routes. None)
       \<lparr>Route_Name = ''10.0.2.0/24'', Route_TargetInstance = ''node-2'',
        Route_DestinationCIDR = ''10.0.2.0/24''\<rparr>
     = Inl (SliceBoundsOutOfRange (- 1))"
  by (simp add: DeleteRoute_def slice_to_def)

section \<open>What a recording controller observes\<close>

lemma recording_getAll [simp]:
  "getAllReplicaSetsAndSyncRevision (recording dc) d c (s, tr) =
     (case getAllReplicaSetsAndSyncRevision dc d c s of
        ((n, os, e), s') \<Rightarrow> ((n, os, e), (s', tr @ [GetAllReplicaSets c n os e])))"
  by (simp add: recording_def)

lemma recording_scale [simp]:
  "scaleReplicaSetAndRecordEvent (recording dc) rs n d (s, tr) =
     (case scaleReplicaSetAndRecordEvent dc rs n d s of
        ((b, rs', e), s') \<Rightarrow> ((b, rs', e), (s', tr @ [ScaleReplicaSet rs n b e])))"
  by (simp add: recording_def)

lemma recording_update [simp]:
  "updateDeploymentStatus (recording dc) a n d (s, tr) =
     (case updateDeploymentStatus dc a n d s of
        (e, s') \<Rightarrow> (e, (s', tr @ [UpdateStatus a n e])))"
  by (simp add: recording_def)

lemma recording_sync [simp]:
  "syncDeploymentStatus (recording dc) a n d (s, tr) =
     (case syncDeploymentStatus dc a n d s of
        (e, s') \<Rightarrow> (e, (s', tr @ [SyncStatus a n e])))"
  by (simp add: recording_def)

lemma recording_cleanup [simp]:
  "cleanupDeployment (recording dc) os d (s, tr) =
     (case cleanupDeployment dc os d s of
        (e, s') \<Rightarrow> (e, (s', tr @ [Cleanup os e])))"
  by (simp add: recording_def)

lemma loop_recording:
  "scaleDownOldReplicaSetsForRecreate_loop (recording dc) olds d acc (s, tr) =
     (fst (scaleDownOldReplicaSetsForRecreate_loop dc olds d acc s),
      (snd (scaleDownOldReplicaSetsForRecreate_loop dc olds d acc s),
       tr @ scaleDown_calls dc olds d s))"
  by (induction olds arbitrary: acc s tr) (simp_all add: case_prod_beta split: option.splits)

lemma scaleDown_recording:
  "scaleDownOldReplicaSetsForRecreate (recording dc) olds d (s, tr) =
     (fst (scaleDownOldReplicaSetsForRecreate dc olds d s),
      (snd (scaleDownOldReplicaSetsForRecreate dc olds d s),
       tr @ scaleDown_calls dc olds d s))"
  by (simp add: scaleDownOldReplicaSetsForRecreate_def loop_recording)

lemma scaleUp_recording:
  "rolloutRecreate_scaleUp (recording dc) d newRS oldRSs allRSs (s, tr) =
     (fst (rolloutRecreate_scaleUp dc d newRS oldRSs allRSs s),
      (snd (rolloutRecreate_scaleUp dc d newRS oldRSs allRSs s),
       tr @ scaleUp_calls dc d newRS oldRSs allRSs s))"
  by (simp add: rolloutRecreate_scaleUp_def scaleUpNewReplicaSetForRecreate_def scaleUp_calls_def
      case_prod_beta split: option.splits)

lemma pass_recording:
  "rolloutRecreate (recording dc) d (s, tr) =
     (fst (rolloutRecreate dc d s), (snd (rolloutRecreate dc d s), tr @ pass_calls dc d s))"
proof -
  obtain newRS oldRSs err s1 where
    g: "getAllReplicaSetsAndSyncRevision dc d False s = ((newRS, oldRSs, err), s1)"
    by (metis prod_cases3 surj_pair)
  obtain scaledDown err2 s2 where
    sd: "scaleDownOldReplicaSetsForRecreate dc (FilterActiveReplicaSets oldRSs) d s1 =
           ((scaledDown, err2), s2)"
    by (metis surj_pair)
  obtain newRS' oldRSs' err3 s3 where
    g2: "getAllReplicaSetsAndSyncRevision dc d True s2 = ((newRS', oldRSs', err3), s3)"
    by (metis prod_cases3 surj_pair)
  obtain uerr s4 where
    u: "updateDeploymentStatus dc (map Some oldRSs @ [newRS]) newRS d s2 = (uerr, s4)"
    by (metis surj_pair)
  show ?thesis
    by (cases err; cases err2; cases scaledDown; cases newRS; cases err3)
       (simp_all add: rolloutRecreate_def pass_calls_def scaleDown_recording scaleUp_recording
          g sd g2 case_prod_beta)
qed

lemma calls_of_pass_eq: "calls_of_pass dc d s = pass_calls dc d s"
  by (simp add: calls_of_pass_def pass_recording)

lemma calls_of_scaleDown_eq: "calls_of_scaleDown dc olds d s = scaleDown_calls dc olds d s"
  by (simp add: calls_of_scaleDown_def scaleDown_recording)

lemmas spec_defs = specified_controller_def spec_getAllReplicaSetsAndSyncRevision_def
  spec_scaleReplicaSetAndRecordEvent_def computeAndPersist_def spec_cleanupDeployment_def
  store_call_def FindNewReplicaSet_def FindOldReplicaSets_def newReplicaSetFor_def calculateStatus_def
  FilterActiveReplicaSets_def replica_set_def world_of_def web_def
  scaleDownOldReplicaSetsForRecreate_def scaleUpNewReplicaSetForRecreate_def
  rolloutRecreate_def rolloutRecreate_scaleUp_def List.map_filter_def

section \<open>Errors while scaling down\<close>

lemma loop_append_fail:
  assumes "scaleDownOldReplicaSetsForRecreate_loop dc before d acc s1 = ((b, None), s2)"
      and "Spec_Replicas rs \<noteq> 0"
      and "scaleReplicaSetAndRecordEvent dc (Some rs) 0 d s2 = ((scaledRS, rs', Some e), s3)"
  shows "scaleDownOldReplicaSetsForRecreate_loop dc (before @ rs # remaining) d acc s1 =
           ((False, Some e), s3)
       \<and> scaleDown_calls dc (before @ rs # remaining) d s1 =
           scaleDown_calls dc before d s1 @ [ScaleReplicaSet (Some rs) 0 scaledRS (Some e)]"
  using assms
proof (induction before arbitrary: acc s1)
  case Nil
  then show ?case by simp
next
  case (Cons a before)
  show ?case
  proof (cases "Spec_Replicas a = 0")
    case True
    with Cons show ?thesis by simp
  next
    case False
    obtain sc r er s' where sa: "scaleReplicaSetAndRecordEvent dc (Some a) 0 d s1 = ((sc, r, er), s')"
      by (metis prod_cases3 surj_pair)
    show ?thesis
    proof (cases er)
      case None
      with Cons.prems False sa
      have "scaleDownOldReplicaSetsForRecreate_loop dc before d (if sc then True else acc) s' = ((b, None), s2)"
        by simp
      from Cons.IH[OF this Cons.prems(2,3)] False sa None show ?thesis by simp
    next
      case (Some x)
      with Cons.prems False sa show ?thesis by simp
    qed
  qed
qed

text \<open>
  C4. Let the first resolution succeed and the active old replica sets be
  \<open>before @ rs # remaining\<close>, where scaling the ones in \<open>before\<close> succeeds and scaling
  \<open>rs\<close> to zero fails with \<open>e\<close>. Then \<open>scaleDownOldReplicaSetsForRecreate\<close> returns
  \<open>(false, e)\<close> and \<open>rolloutRecreate\<close> returns \<open>e\<close>, both in the state right after the
  failing call; the calls of the pass are the resolution, the calls for \<open>before\<close> and the
  failing call, and nothing else: nothing is attempted for \<open>remaining\<close>, no second
  resolution (so no creation), no scale-up, no status update, no cleanup. This holds for
  every controller.
\<close>

theorem scale_down_error_aborts_pass:
  assumes "getAllReplicaSetsAndSyncRevision dc deployment False s = ((newRS, oldRSs, None), s1)"
      and "FilterActiveReplicaSets oldRSs = before @ rs # remaining"
      and "scaleDownOldReplicaSetsForRecreate dc before deployment s1 = ((scaled, None), s2)"
      and "Spec_Replicas rs \<noteq> 0"
      and "scaleReplicaSetAndRecordEvent dc (Some rs) 0 deployment s2 = ((scaledRS, rs', Some e), s3)"
  shows "scaleDownOldReplicaSetsForRecreate dc (FilterActiveReplicaSets oldRSs) deployment s1 =
           ((False, Some e), s3)
       \<and> rolloutRecreate dc deployment s = (Some e, s3)
       \<and> calls_of_pass dc deployment s =
           GetAllReplicaSets False newRS oldRSs None # calls_of_scaleDown dc before deployment s1 @
           [ScaleReplicaSet (Some rs) 0 scaledRS (Some e)]"
proof -
  from assms(3) have l: "scaleDownOldReplicaSetsForRecreate_loop dc before deployment False s1 = ((scaled, None), s2)"
    by (simp add: scaleDownOldReplicaSetsForRecreate_def)
  note f = loop_append_fail[OF l assms(4,5), of remaining]
  have sd: "scaleDownOldReplicaSetsForRecreate dc (FilterActiveReplicaSets oldRSs) deployment s1 =
           ((False, Some e), s3)"
    using f by (simp add: scaleDownOldReplicaSetsForRecreate_def assms(2))
  have r: "rolloutRecreate dc deployment s = (Some e, s3)"
    by (simp add: rolloutRecreate_def assms(1) sd)
  have c: "calls_of_pass dc deployment s =
           GetAllReplicaSets False newRS oldRSs None # calls_of_scaleDown dc before deployment s1 @
           [ScaleReplicaSet (Some rs) 0 scaledRS (Some e)]"
    using f by (simp add: calls_of_pass_eq pass_calls_def assms(1) sd sd[unfolded assms(2)] calls_of_scaleDown_eq assms(2))
  from sd r c show ?thesis by simp
qed

theorem scale_down_error_aborts_pass_witness:
  "rolloutRecreate specified_controller web
     (world_of [replica_set ''web-v2'' ''v2'' 5 5, replica_set ''web-v1'' ''v1'' 3 3,
                replica_set ''web-v0'' ''v0'' 2 2]
        [None, None, Some ConflictError]) =
   (Some ConflictError,
    \<lparr> store = [replica_set ''web-v2'' ''v2'' 0 5, replica_set ''web-v1'' ''v1'' 3 3,
                replica_set ''web-v0'' ''v0'' 2 2],
      status = None,
      events = [\<lparr>subject = ''web-v2'', scaling = ScaledDown, fromCount = 5, toCount = 0\<rparr>],
      operations = [ListOp, ConditionalUpdateOp (replica_set ''web-v2'' ''v2'' 5 5) 0,
                    ConditionalUpdateOp (replica_set ''web-v1'' ''v1'' 3 3) 0],
      faults = [] \<rparr>)"
proof -
  let ?a = "replica_set ''web-v2'' ''v2'' 5 5"
  let ?b = "replica_set ''web-v1'' ''v1'' 3 3"
  let ?c = "replica_set ''web-v0'' ''v0'' 2 2"
  let ?w = "world_of [?a, ?b, ?c] [None, None, Some ConflictError]"
  let ?w1 = "snd (getAllReplicaSetsAndSyncRevision specified_controller web False ?w)"
  let ?w2 = "snd (scaleDownOldReplicaSetsForRecreate specified_controller [?a] web ?w1)"
  let ?w3 = "snd (scaleReplicaSetAndRecordEvent specified_controller (Some ?b) 0 web ?w2)"
  have h1: "getAllReplicaSetsAndSyncRevision specified_controller web False ?w =
              ((None, [?a, ?b, ?c], None), ?w1)"
    by (simp add: spec_defs prod_eq_iff)
  have h2: "FilterActiveReplicaSets [?a, ?b, ?c] = [?a] @ ?b # [?c]"
    by (simp add: spec_defs)
  have h3: "scaleDownOldReplicaSetsForRecreate specified_controller [?a] web ?w1 = ((True, None), ?w2)"
    by (simp add: spec_defs prod_eq_iff)
  have h4: "Spec_Replicas ?b \<noteq> 0"
    by (simp add: spec_defs)
  have h5: "scaleReplicaSetAndRecordEvent specified_controller (Some ?b) 0 web ?w2 =
              ((False, Some ?b, Some ConflictError), ?w3)"
    by (simp add: spec_defs prod_eq_iff)
  have w3: "?w3 = \<lparr> store = [replica_set ''web-v2'' ''v2'' 0 5, ?b, ?c],
      status = None,
      events = [\<lparr>subject = ''web-v2'', scaling = ScaledDown, fromCount = 5, toCount = 0\<rparr>],
      operations = [ListOp, ConditionalUpdateOp ?a 0, ConditionalUpdateOp ?b 0],
      faults = [] \<rparr>"
    by (simp add: spec_defs)
  from scale_down_error_aborts_pass[OF h1 h2 h3 h4 h5] w3 show ?thesis
    by simp
qed

section \<open>The shape of a pass\<close>

lemma scaleDown_calls_are_scaling:
  "c \<in> set (scaleDown_calls dc olds d s) \<Longrightarrow>
     \<exists>rs b e. c = ScaleReplicaSet (Some rs) 0 b e \<and> rs \<in> set olds \<and> Spec_Replicas rs \<noteq> 0"
proof (induction olds arbitrary: s)
  case Nil
  then show ?case by simp
next
  case (Cons a olds)
  show ?case
  proof (cases "Spec_Replicas a = 0")
    case True
    with Cons.prems have "c \<in> set (scaleDown_calls dc olds d s)" by simp
    from Cons.IH[OF this] show ?thesis by auto
  next
    case False
    obtain sc r er s' where sa: "scaleReplicaSetAndRecordEvent dc (Some a) 0 d s = ((sc, r, er), s')"
      by (metis prod_cases3 surj_pair)
    show ?thesis
    proof (cases er)
      case None
      with Cons.prems False sa
      have "c = ScaleReplicaSet (Some a) 0 sc None \<or> c \<in> set (scaleDown_calls dc olds d s')"
        by simp
      then show ?thesis
      proof
        assume "c = ScaleReplicaSet (Some a) 0 sc None"
        with False show ?thesis by auto
      next
        assume "c \<in> set (scaleDown_calls dc olds d s')"
        from Cons.IH[OF this] show ?thesis by auto
      qed
    next
      case (Some x)
      with Cons.prems False sa show ?thesis by simp
    qed
  qed
qed

lemma loop_result_calls:
  assumes "scaleDownOldReplicaSetsForRecreate_loop dc olds d acc s = ((b, err), s')"
  shows "(err = None \<longrightarrow>
            (\<forall>c \<in> set (scaleDown_calls dc olds d s). call_error c = None) \<and>
            (b \<longleftrightarrow> acc \<or> (\<exists>c \<in> set (scaleDown_calls dc olds d s). call_scaled c)))
       \<and> (err \<noteq> None \<longrightarrow>
            \<not> b \<and> (\<exists>c \<in> set (scaleDown_calls dc olds d s). call_error c = err))"
  using assms
proof (induction olds arbitrary: acc s)
  case Nil
  then show ?case by auto
next
  case (Cons a olds)
  show ?case
  proof (cases "Spec_Replicas a = 0")
    case True
    with Cons.prems
    have "scaleDownOldReplicaSetsForRecreate_loop dc olds d acc s = ((b, err), s')" by simp
    from Cons.IH[OF this] True show ?thesis by simp
  next
    case False
    obtain sc r er s1 where sa: "scaleReplicaSetAndRecordEvent dc (Some a) 0 d s = ((sc, r, er), s1)"
      by (metis prod_cases3 surj_pair)
    show ?thesis
    proof (cases er)
      case None
      with Cons.prems False sa
      have "scaleDownOldReplicaSetsForRecreate_loop dc olds d (if sc then True else acc) s1 = ((b, err), s')"
        by simp
      from Cons.IH[OF this] False sa None show ?thesis by auto
    next
      case (Some x)
      with Cons.prems False sa show ?thesis by auto
    qed
  qed
qed

lemma scaleDown_result_calls:
  assumes "scaleDownOldReplicaSetsForRecreate dc olds d s = ((b, err), s')"
  shows "(err = None \<longrightarrow>
            (\<forall>c \<in> set (scaleDown_calls dc olds d s). call_error c = None) \<and>
            (b \<longleftrightarrow> (\<exists>c \<in> set (scaleDown_calls dc olds d s). call_scaled c)))
       \<and> (err \<noteq> None \<longrightarrow>
            \<not> b \<and> (\<exists>c \<in> set (scaleDown_calls dc olds d s). call_error c = err))"
  using loop_result_calls[of dc olds d False s b err s'] assms
  by (simp add: scaleDownOldReplicaSetsForRecreate_def)

lemma pass_cases [case_names first_resolution_failed scale_down_failed scaled_down
    second_resolution_failed created existing]:
  obtains
    (first_resolution_failed) newRS oldRSs e s1 where
      "getAllReplicaSetsAndSyncRevision dc d False s = ((newRS, oldRSs, Some e), s1)"
      "rolloutRecreate dc d s = (Some e, s1)"
      "pass_calls dc d s = [GetAllReplicaSets False newRS oldRSs (Some e)]"
  | (scale_down_failed) newRS oldRSs s1 b e s2 where
      "getAllReplicaSetsAndSyncRevision dc d False s = ((newRS, oldRSs, None), s1)"
      "scaleDownOldReplicaSetsForRecreate dc (FilterActiveReplicaSets oldRSs) d s1 =
         ((b, Some e), s2)"
      "rolloutRecreate dc d s = (Some e, s2)"
      "pass_calls dc d s =
         GetAllReplicaSets False newRS oldRSs None #
         scaleDown_calls dc (FilterActiveReplicaSets oldRSs) d s1"
  | (scaled_down) newRS oldRSs s1 s2 where
      "getAllReplicaSetsAndSyncRevision dc d False s = ((newRS, oldRSs, None), s1)"
      "scaleDownOldReplicaSetsForRecreate dc (FilterActiveReplicaSets oldRSs) d s1 =
         ((True, None), s2)"
      "rolloutRecreate dc d s =
         updateDeploymentStatus dc (map Some oldRSs @ [newRS]) newRS d s2"
      "pass_calls dc d s =
         GetAllReplicaSets False newRS oldRSs None #
         scaleDown_calls dc (FilterActiveReplicaSets oldRSs) d s1 @
         [UpdateStatus (map Some oldRSs @ [newRS]) newRS (fst (rolloutRecreate dc d s))]"
  | (second_resolution_failed) oldRSs s1 s2 newRS' oldRSs' e s3 where
      "getAllReplicaSetsAndSyncRevision dc d False s = ((None, oldRSs, None), s1)"
      "scaleDownOldReplicaSetsForRecreate dc (FilterActiveReplicaSets oldRSs) d s1 =
         ((False, None), s2)"
      "getAllReplicaSetsAndSyncRevision dc d True s2 = ((newRS', oldRSs', Some e), s3)"
      "rolloutRecreate dc d s = (Some e, s3)"
      "pass_calls dc d s =
         GetAllReplicaSets False None oldRSs None #
         scaleDown_calls dc (FilterActiveReplicaSets oldRSs) d s1 @
         [GetAllReplicaSets True newRS' oldRSs' (Some e)]"
  | (created) oldRSs s1 s2 newRS' oldRSs' s3 where
      "getAllReplicaSetsAndSyncRevision dc d False s = ((None, oldRSs, None), s1)"
      "scaleDownOldReplicaSetsForRecreate dc (FilterActiveReplicaSets oldRSs) d s1 =
         ((False, None), s2)"
      "getAllReplicaSetsAndSyncRevision dc d True s2 = ((newRS', oldRSs', None), s3)"
      "rolloutRecreate dc d s =
         rolloutRecreate_scaleUp dc d newRS' oldRSs' (map Some oldRSs' @ [newRS']) s3"
      "pass_calls dc d s =
         GetAllReplicaSets False None oldRSs None #
         scaleDown_calls dc (FilterActiveReplicaSets oldRSs) d s1 @
         GetAllReplicaSets True newRS' oldRSs' None #
         scaleUp_calls dc d newRS' oldRSs' (map Some oldRSs' @ [newRS']) s3"
  | (existing) rs oldRSs s1 s2 where
      "getAllReplicaSetsAndSyncRevision dc d False s = ((Some rs, oldRSs, None), s1)"
      "scaleDownOldReplicaSetsForRecreate dc (FilterActiveReplicaSets oldRSs) d s1 =
         ((False, None), s2)"
      "rolloutRecreate dc d s =
         rolloutRecreate_scaleUp dc d (Some rs) oldRSs (map Some oldRSs @ [Some rs]) s2"
      "pass_calls dc d s =
         GetAllReplicaSets False (Some rs) oldRSs None #
         scaleDown_calls dc (FilterActiveReplicaSets oldRSs) d s1 @
         scaleUp_calls dc d (Some rs) oldRSs (map Some oldRSs @ [Some rs]) s2"
proof -
  obtain newRS oldRSs err s1 where
    g: "getAllReplicaSetsAndSyncRevision dc d False s = ((newRS, oldRSs, err), s1)"
    by (metis prod_cases3 surj_pair)
  obtain scaledDown err2 s2 where
    sd: "scaleDownOldReplicaSetsForRecreate dc (FilterActiveReplicaSets oldRSs) d s1 =
           ((scaledDown, err2), s2)"
    by (metis surj_pair)
  obtain newRS' oldRSs' err3 s3 where
    g2: "getAllReplicaSetsAndSyncRevision dc d True s2 = ((newRS', oldRSs', err3), s3)"
    by (metis prod_cases3 surj_pair)
  show thesis
  proof (cases err)
    case (Some e)
    with g show thesis
      by (intro first_resolution_failed[of newRS oldRSs e s1])
         (simp_all add: rolloutRecreate_def pass_calls_def)
  next
    case e1: None
    show thesis
    proof (cases err2)
      case (Some e)
      with g sd e1 show thesis
        by (intro scale_down_failed[of newRS oldRSs s1 scaledDown e s2])
           (simp_all add: rolloutRecreate_def pass_calls_def)
    next
      case e2: None
      show thesis
      proof (cases scaledDown)
        case True
        with g sd e1 e2 show thesis
          by (intro scaled_down[of newRS oldRSs s1 s2])
             (simp_all add: rolloutRecreate_def pass_calls_def)
      next
        case False
        show thesis
        proof (cases newRS)
          case (Some rs)
          with g sd e1 e2 False show thesis
            by (intro existing[of rs oldRSs s1 s2])
               (simp_all add: rolloutRecreate_def pass_calls_def)
        next
          case None
          show thesis
          proof (cases err3)
            case (Some e)
            with g sd g2 e1 e2 False None show thesis
              by (intro second_resolution_failed[of oldRSs s1 s2 newRS' oldRSs' e s3])
                 (simp_all add: rolloutRecreate_def pass_calls_def)
          next
            case e3: None
            with g sd g2 e1 e2 False None show thesis
              by (intro created[of oldRSs s1 s2 newRS' oldRSs' s3])
                 (simp_all add: rolloutRecreate_def pass_calls_def)
          qed
        qed
      qed
    qed
  qed
qed

lemma barrier_pass:
  assumes "getAllReplicaSetsAndSyncRevision dc d False s = ((newRS, oldRSs, None), s1)"
      and "scaleDownOldReplicaSetsForRecreate dc (FilterActiveReplicaSets oldRSs) d s1 = ((True, None), s2)"
  shows "rolloutRecreate dc d s = updateDeploymentStatus dc (map Some oldRSs @ [newRS]) newRS d s2"
    and "calls_of_pass dc d s =
           GetAllReplicaSets False newRS oldRSs None #
           calls_of_scaleDown dc (FilterActiveReplicaSets oldRSs) d s1 @
           [UpdateStatus (map Some oldRSs @ [newRS]) newRS (fst (rolloutRecreate dc d s))]"
  using assms
  by (simp_all add: rolloutRecreate_def calls_of_pass_eq pass_calls_def calls_of_scaleDown_eq)

lemma phase_failed_simps [simp]:
  "phase_failed (GetAllReplicaSets cr n os e) = (e \<noteq> None)"
  "phase_failed (ScaleReplicaSet rs k b e) = (e \<noteq> None)"
  "\<not> phase_failed (UpdateStatus a n e)"
  "\<not> phase_failed (SyncStatus a n e)"
  "\<not> phase_failed (Cleanup os e)"
  by (simp_all add: phase_failed_def)

lemma scaleUp_calls_cleanup:
  "(\<exists>c \<in> set (scaleUp_calls dc d newRS oldRSs allRSs s). is_Cleanup c) \<longleftrightarrow>
   (\<forall>c \<in> set (scaleUp_calls dc d newRS oldRSs allRSs s). \<not> call_scaled c \<and> \<not> phase_failed c)"
  by (auto simp: scaleUp_calls_def case_prod_beta split: option.splits)

lemma scaleUp_calls_end:
  assumes "\<exists>c \<in> set (scaleUp_calls dc d newRS oldRSs allRSs s). is_Cleanup c"
  shows "\<exists>cerr. scaleUp_calls dc d newRS oldRSs allRSs s =
           [ScaleReplicaSet newRS (Deployment_Replicas d) False None, Cleanup oldRSs cerr,
            SyncStatus allRSs newRS (fst (rolloutRecreate_scaleUp dc d newRS oldRSs allRSs s))]"
  using assms
  by (auto simp: scaleUp_calls_def rolloutRecreate_scaleUp_def scaleUpNewReplicaSetForRecreate_def
      case_prod_beta split: option.splits if_splits)

lemma scaleDown_calls_kind:
  "c \<in> set (scaleDown_calls dc olds d s) \<Longrightarrow>
     \<not> is_Cleanup c \<and> is_ScaleReplicaSet c \<and> \<not> is_creating c \<and> \<not> is_status c
     \<and> \<not> is_GetAllReplicaSets c"
  using scaleDown_calls_are_scaling[of c dc olds d s] by auto

lemma scaleDown_calls_changes:
  assumes "scaleDownOldReplicaSetsForRecreate dc olds d s = ((b, err), s')"
  shows "(\<forall>c \<in> set (scaleDown_calls dc olds d s). \<not> call_scaled c \<and> \<not> phase_failed c)
         \<longleftrightarrow> \<not> b \<and> err = None"
proof -
  have k: "\<forall>c \<in> set (scaleDown_calls dc olds d s). phase_failed c \<longleftrightarrow> call_error c \<noteq> None"
    using scaleDown_calls_kind[of _ dc olds d s] by (simp add: phase_failed_def)
  from scaleDown_result_calls[OF assms] k show ?thesis
    by (cases err) auto
qed

lemma pass_cleanup_iff:
  "(\<exists>c \<in> set (pass_calls dc d s). is_Cleanup c) \<longleftrightarrow>
   (\<forall>c \<in> set (pass_calls dc d s). \<not> call_scaled c \<and> \<not> phase_failed c)"
proof (cases rule: pass_cases[of dc d s])
  case (first_resolution_failed newRS oldRSs e s1)
  then show ?thesis by simp
next
  case (scale_down_failed newRS oldRSs s1 b e s2)
  with scaleDown_calls_changes[OF scale_down_failed(2)] scaleDown_calls_kind[of _ dc _ d s1]
  show ?thesis by auto
next
  case (scaled_down newRS oldRSs s1 s2)
  with scaleDown_calls_changes[OF scaled_down(2)] scaleDown_calls_kind[of _ dc _ d s1]
  show ?thesis by auto
next
  case (second_resolution_failed oldRSs s1 s2 newRS' oldRSs' e s3)
  with scaleDown_calls_kind[of _ dc _ d s1]
  show ?thesis by auto
next
  case (created oldRSs s1 s2 newRS' oldRSs' s3)
  with scaleDown_calls_changes[OF created(2)] scaleDown_calls_kind[of _ dc _ d s1]
    scaleUp_calls_cleanup[of dc d newRS' oldRSs' "map Some oldRSs' @ [newRS']" s3]
  show ?thesis by (auto simp: ball_Un bex_Un)
next
  case (existing rs oldRSs s1 s2)
  with scaleDown_calls_changes[OF existing(2)] scaleDown_calls_kind[of _ dc _ d s1]
    scaleUp_calls_cleanup[of dc d "Some rs" oldRSs "map Some oldRSs @ [Some rs]" s2]
  show ?thesis by (auto simp: ball_Un bex_Un)
qed

lemma pass_reaching_cleanup:
  assumes "\<exists>c \<in> set (pass_calls dc d s). is_Cleanup c"
  shows "\<exists>pre newRS oldRSs cerr.
           pass_calls dc d s =
             pre @ [ScaleReplicaSet newRS (Deployment_Replicas d) False None, Cleanup oldRSs cerr,
                    SyncStatus (map Some oldRSs @ [newRS]) newRS (fst (rolloutRecreate dc d s))]"
proof (cases rule: pass_cases[of dc d s])
  case (first_resolution_failed newRS oldRSs e s1)
  with assms show ?thesis by simp
next
  case (scale_down_failed newRS oldRSs s1 b e s2)
  with assms scaleDown_calls_kind[of _ dc _ d s1] show ?thesis by auto
next
  case (scaled_down newRS oldRSs s1 s2)
  with assms scaleDown_calls_kind[of _ dc _ d s1] show ?thesis by auto
next
  case (second_resolution_failed oldRSs s1 s2 newRS' oldRSs' e s3)
  with assms scaleDown_calls_kind[of _ dc _ d s1] show ?thesis by auto
next
  case (created oldRSs s1 s2 newRS' oldRSs' s3)
  with assms scaleDown_calls_kind[of _ dc _ d s1]
  have "\<exists>c \<in> set (scaleUp_calls dc d newRS' oldRSs' (map Some oldRSs' @ [newRS']) s3). is_Cleanup c"
    by auto
  from scaleUp_calls_end[OF this] obtain cerr where
    "scaleUp_calls dc d newRS' oldRSs' (map Some oldRSs' @ [newRS']) s3 =
       [ScaleReplicaSet newRS' (Deployment_Replicas d) False None, Cleanup oldRSs' cerr,
        SyncStatus (map Some oldRSs' @ [newRS']) newRS' (fst (rolloutRecreate dc d s))]"
    using created(4) by auto
  with created(5) have "pass_calls dc d s =
      (GetAllReplicaSets False None oldRSs None #
         scaleDown_calls dc (FilterActiveReplicaSets oldRSs) d s1 @
         [GetAllReplicaSets True newRS' oldRSs' None]) @
       [ScaleReplicaSet newRS' (Deployment_Replicas d) False None, Cleanup oldRSs' cerr,
        SyncStatus (map Some oldRSs' @ [newRS']) newRS' (fst (rolloutRecreate dc d s))]"
    by simp
  then show ?thesis by blast
next
  case (existing rs oldRSs s1 s2)
  with assms scaleDown_calls_kind[of _ dc _ d s1]
  have "\<exists>c \<in> set (scaleUp_calls dc d (Some rs) oldRSs (map Some oldRSs @ [Some rs]) s2). is_Cleanup c"
    by auto
  from scaleUp_calls_end[OF this] obtain cerr where
    "scaleUp_calls dc d (Some rs) oldRSs (map Some oldRSs @ [Some rs]) s2 =
       [ScaleReplicaSet (Some rs) (Deployment_Replicas d) False None, Cleanup oldRSs cerr,
        SyncStatus (map Some oldRSs @ [Some rs]) (Some rs) (fst (rolloutRecreate dc d s))]"
    using existing(3) by auto
  with existing(4) have "pass_calls dc d s =
      (GetAllReplicaSets False (Some rs) oldRSs None #
         scaleDown_calls dc (FilterActiveReplicaSets oldRSs) d s1) @
       [ScaleReplicaSet (Some rs) (Deployment_Replicas d) False None, Cleanup oldRSs cerr,
        SyncStatus (map Some oldRSs @ [Some rs]) (Some rs) (fst (rolloutRecreate dc d s))]"
    by simp
  then show ?thesis by blast
qed

section \<open>The nil entry of the aggregated list\<close>

text \<open>
  C9. If the first resolution finds no replica set for the current template (\<open>newRS\<close> is
  nil) and the scale-down reports that it scaled, the pass ends at the first barrier: its
  last call is the status update, which receives \<open>allRSs\<close> = the old replica sets followed
  by a nil entry, and \<open>newRS\<close> = nil. For every controller.
\<close>

theorem barrier_status_update_has_nil_entry:
  assumes "getAllReplicaSetsAndSyncRevision dc deployment False s = ((None, oldRSs, None), s1)"
      and "scaleDownOldReplicaSetsForRecreate dc (FilterActiveReplicaSets oldRSs) deployment s1 =
             ((True, None), s2)"
  shows "rolloutRecreate dc deployment s =
           updateDeploymentStatus dc (map Some oldRSs @ [None]) None deployment s2
       \<and> calls_of_pass dc deployment s =
           GetAllReplicaSets False None oldRSs None #
           calls_of_scaleDown dc (FilterActiveReplicaSets oldRSs) deployment s1 @
           [UpdateStatus (map Some oldRSs @ [None]) None (fst (rolloutRecreate dc deployment s))]
       \<and> last (map Some oldRSs @ [None]) = None
       \<and> None \<in> set (map Some oldRSs @ [None])"
  using barrier_pass[OF assms] by simp

theorem barrier_status_update_has_nil_entry_witness:
  "calls_of_pass specified_controller web (world_of [replica_set ''web-v2'' ''v2'' 5 5] []) =
     [GetAllReplicaSets False None [replica_set ''web-v2'' ''v2'' 5 5] None,
      ScaleReplicaSet (Some (replica_set ''web-v2'' ''v2'' 5 5)) 0 True None,
      UpdateStatus [Some (replica_set ''web-v2'' ''v2'' 5 5), None] None None]"
proof -
  let ?a = "replica_set ''web-v2'' ''v2'' 5 5"
  let ?w = "world_of [?a] []"
  let ?w1 = "snd (getAllReplicaSetsAndSyncRevision specified_controller web False ?w)"
  let ?w2 = "snd (scaleDownOldReplicaSetsForRecreate specified_controller
                    (FilterActiveReplicaSets [?a]) web ?w1)"
  have h1: "getAllReplicaSetsAndSyncRevision specified_controller web False ?w =
              ((None, [?a], None), ?w1)"
    by (simp add: spec_defs prod_eq_iff)
  have h2: "scaleDownOldReplicaSetsForRecreate specified_controller
              (FilterActiveReplicaSets [?a]) web ?w1 = ((True, None), ?w2)"
    by (simp add: spec_defs prod_eq_iff)
  have c: "calls_of_scaleDown specified_controller (FilterActiveReplicaSets [?a]) web ?w1 =
             [ScaleReplicaSet (Some ?a) 0 True None]"
    by (simp add: calls_of_scaleDown_eq spec_defs)
  have r: "fst (updateDeploymentStatus specified_controller [Some ?a, None] None web ?w2) = None"
    by (simp add: spec_defs)
  from barrier_status_update_has_nil_entry[OF h1 h2] c r show ?thesis
    by simp
qed

section \<open>The specified collaborators and the store\<close>

lemma FindNew_hash:
  "FindNewReplicaSet d rss = Some n \<Longrightarrow> TemplateHash n = Template d"
  by (auto simp: FindNewReplicaSet_def dest: find_Some_iff[THEN iffD1])

lemma FindNew_Cons [simp]:
  "FindNewReplicaSet d (rs # rss) =
     (if TemplateHash rs = Template d then Some rs else FindNewReplicaSet d rss)"
  by (simp add: FindNewReplicaSet_def)

lemma FindNew_Nil [simp]: "FindNewReplicaSet d [] = None"
  by (simp add: FindNewReplicaSet_def)

lemma FindOld_Cons [simp]:
  "FindOldReplicaSets d (rs # rss) =
     (if TemplateHash rs = Template d then FindOldReplicaSets d rss
      else rs # FindOldReplicaSets d rss)"
  by (simp add: FindOldReplicaSets_def)

lemma FindOld_Nil [simp]: "FindOldReplicaSets d [] = []"
  by (simp add: FindOldReplicaSets_def)

lemma specified_fields [simp]:
  "getAllReplicaSetsAndSyncRevision specified_controller = spec_getAllReplicaSetsAndSyncRevision"
  "scaleReplicaSetAndRecordEvent specified_controller = spec_scaleReplicaSetAndRecordEvent"
  "updateDeploymentStatus specified_controller = computeAndPersist"
  "syncDeploymentStatus specified_controller = computeAndPersist"
  "cleanupDeployment specified_controller = spec_cleanupDeployment"
  by (simp_all add: specified_controller_def)

lemma getAll_False:
  assumes "spec_getAllReplicaSetsAndSyncRevision d False w = ((n, os, e), w1)"
  shows "store w1 = store w \<and> status w1 = status w \<and> events w1 = events w
       \<and> operations w1 = operations w @ [ListOp] \<and> faults w1 = tl (faults w)
       \<and> (e = None \<longleftrightarrow> next_succeeds w)
       \<and> (e = None \<longrightarrow> n = FindNewReplicaSet d (store w) \<and> os = FindOldReplicaSets d (store w))"
  using assms
  by (auto simp: spec_getAllReplicaSetsAndSyncRevision_def store_call_def next_succeeds_def
      Let_def split: list.splits option.splits)

lemma getAll_True:
  assumes "spec_getAllReplicaSetsAndSyncRevision d True w = ((n, os, e), w1)"
  shows "status w1 = status w \<and> events w1 = events w
       \<and> (e \<noteq> None \<longrightarrow> store w1 = store w)
       \<and> (e = None \<longrightarrow> os = FindOldReplicaSets d (store w) \<and>
            (case FindNewReplicaSet d (store w) of
               Some new \<Rightarrow> n = Some new \<and> store w1 = store w
             | None \<Rightarrow> n = Some (newReplicaSetFor d) \<and>
                 store w1 = newReplicaSetFor d # store w))"
  using assms
  by (auto simp: spec_getAllReplicaSetsAndSyncRevision_def store_call_def
      Let_def split: list.splits option.splits)

lemma scale_result:
  assumes "spec_scaleReplicaSetAndRecordEvent (Some rs) k d w = ((b, r, e), w1)"
  shows "status w1 = status w
       \<and> (b \<longrightarrow> e = None \<and> Spec_Replicas rs \<noteq> k \<and>
             conditionalUpdate rs (rs\<lparr>Spec_Replicas := k\<rparr>) (store w) = Some (store w1))
       \<and> (\<not> b \<longrightarrow> store w1 = store w \<and> events w1 = events w)
       \<and> (\<not> b \<and> e = None \<longrightarrow> Spec_Replicas rs = k \<and> w1 = w)"
  using assms
  by (auto simp: spec_scaleReplicaSetAndRecordEvent_def store_call_def
      split: list.splits option.splits if_splits)

lemma scale_at_target:
  "Spec_Replicas rs = k \<Longrightarrow>
     spec_scaleReplicaSetAndRecordEvent (Some rs) k d w = ((False, Some rs, None), w)"
  by (simp add: spec_scaleReplicaSetAndRecordEvent_def)

lemma persist_result:
  assumes "computeAndPersist allRSs newRS d w = (e, w1)"
  shows "store w1 = store w \<and> events w1 = events w
       \<and> operations w1 = operations w @ [StatusWriteOp]
       \<and> status w1 = (if e = None then Some (calculateStatus allRSs newRS d) else status w)"
  using assms
  by (auto simp: computeAndPersist_def store_call_def split: list.splits option.splits)

section \<open>Lowering desired counts\<close>
lemma lowered_refl: "lowered rss rss"
  by (simp add: lowered_def list_all2_refl)

lemma lowered_trans:
  assumes "lowered a b" and "lowered b c"
  shows "lowered a c"
  unfolding lowered_def list_all2_conv_all_nth
proof (intro conjI allI impI)
  from assms show "length a = length c"
    by (simp add: lowered_def list_all2_conv_all_nth)
next
  fix i assume i: "i < length a"
  with assms have "b ! i = a ! i \<or> b ! i = (a ! i)\<lparr>Spec_Replicas := 0\<rparr>"
    and "c ! i = b ! i \<or> c ! i = (b ! i)\<lparr>Spec_Replicas := 0\<rparr>"
    by (simp_all add: lowered_def list_all2_conv_all_nth)
  then show "c ! i = a ! i \<or> c ! i = (a ! i)\<lparr>Spec_Replicas := 0\<rparr>"
    by auto
qed

lemma conditionalUpdate_lowered:
  "conditionalUpdate rs (rs\<lparr>Spec_Replicas := 0\<rparr>) rss = Some rss' \<Longrightarrow> lowered rss rss'"
proof (induction rss arbitrary: rss')
  case Nil
  then show ?case by simp
next
  case (Cons a rss)
  show ?case
  proof (cases "a = rs")
    case True
    with Cons.prems show ?thesis by (auto simp: lowered_def list_all2_refl)
  next
    case False
    with Cons.prems obtain t where t: "conditionalUpdate rs (rs\<lparr>Spec_Replicas := 0\<rparr>) rss = Some t"
      and r: "rss' = a # t" by auto
    from Cons.IH[OF t] r show ?thesis by (simp add: lowered_def)
  qed
qed

lemma lowered_overlap:
  assumes "lowered rss rss'" and "overlap d rss'"
  shows "overlap d rss"
proof -
  have new: "FindNewReplicaSet d rss' = Some n \<Longrightarrow> 0 < Spec_Replicas n \<Longrightarrow>
             FindNewReplicaSet d rss = Some n" for n
    using assms(1) unfolding lowered_def
    by (induction rss rss' rule: list_all2_induct) (auto split: if_splits)
  have old: "o' \<in> set (FindOldReplicaSets d rss') \<Longrightarrow> 0 < Spec_Replicas o' \<Longrightarrow>
             o' \<in> set (FindOldReplicaSets d rss)" for o'
    using assms(1) unfolding lowered_def
    by (induction rss rss' rule: list_all2_induct) (auto split: if_splits)
  from assms(2) new old show ?thesis
    by (auto simp: overlap_def list_ex_iff split: option.splits)
qed

lemma loop_lowered:
  assumes "scaleDownOldReplicaSetsForRecreate_loop specified_controller olds d acc w = ((b, e), w')"
  shows "lowered (store w) (store w') \<and> status w' = status w"
  using assms
proof (induction olds arbitrary: acc w)
  case Nil
  then show ?case by (simp add: lowered_refl)
next
  case (Cons a olds)
  show ?case
  proof (cases "Spec_Replicas a = 0")
    case True
    with Cons.prems
    have "scaleDownOldReplicaSetsForRecreate_loop specified_controller olds d acc w = ((b, e), w')"
      by simp
    from Cons.IH[OF this] show ?thesis .
  next
    case False
    obtain sc r er w1 where sa: "spec_scaleReplicaSetAndRecordEvent (Some a) 0 d w = ((sc, r, er), w1)"
      by (metis prod_cases3 surj_pair)
    from scale_result[OF sa] have l1: "lowered (store w) (store w1)" and s1: "status w1 = status w"
      by (cases sc; auto simp: lowered_refl dest: conditionalUpdate_lowered)+
    show ?thesis
    proof (cases er)
      case None
      with Cons.prems False sa
      have "scaleDownOldReplicaSetsForRecreate_loop specified_controller olds d
              (if sc then True else acc) w1 = ((b, e), w')"
        by simp
      from Cons.IH[OF this] l1 s1 show ?thesis by (auto intro: lowered_trans)
    next
      case (Some x)
      with Cons.prems False sa have "w' = w1" by (simp add: specified_controller_def)
      with l1 s1 show ?thesis by simp
    qed
  qed
qed

lemma loop_unscaled:
  assumes "scaleDownOldReplicaSetsForRecreate_loop specified_controller olds d False w = ((False, None), w')"
  shows "w' = w \<and> (\<forall>rs \<in> set olds. Spec_Replicas rs = 0)"
proof -
  have "scaleDownOldReplicaSetsForRecreate_loop specified_controller olds d acc w = ((b, None), w')
        \<Longrightarrow> \<not> b \<Longrightarrow> w' = w \<and> (\<forall>rs \<in> set olds. Spec_Replicas rs = 0)" for acc b
  proof (induction olds arbitrary: acc w)
    case Nil
    then show ?case by simp
  next
    case (Cons a olds)
    show ?case
    proof (cases "Spec_Replicas a = 0")
      case True
      with Cons.prems
      have "scaleDownOldReplicaSetsForRecreate_loop specified_controller olds d acc w = ((b, None), w')"
        by simp
      from Cons.IH[OF this Cons.prems(2)] True show ?thesis by simp
    next
      case False
      obtain sc r er w1 where sa: "spec_scaleReplicaSetAndRecordEvent (Some a) 0 d w = ((sc, r, er), w1)"
        by (metis prod_cases3 surj_pair)
      show ?thesis
      proof (cases er)
        case None
        with Cons.prems False sa
        have l: "scaleDownOldReplicaSetsForRecreate_loop specified_controller olds d
                (if sc then True else acc) w1 = ((b, None), w')"
          by (simp add: specified_controller_def)
        from scale_result[OF sa] None False have sc by auto
        with l have "scaleDownOldReplicaSetsForRecreate_loop specified_controller olds d True w1 = ((b, None), w')"
          by simp
        with loop_result_calls[OF this] Cons.prems(2) show ?thesis by simp
      next
        case (Some x)
        with Cons.prems False sa show ?thesis by (simp add: specified_controller_def)
      qed
    qed
  qed
  from this[OF assms] show ?thesis by simp
qed


section \<open>Scaling the new replica set, deleting old ones\<close>

lemma conditionalUpdate_new:
  assumes "conditionalUpdate rs rs' rss = Some rss'"
      and "TemplateHash rs = Template d" and "TemplateHash rs' = Template d"
  shows "FindOldReplicaSets d rss' = FindOldReplicaSets d rss
       \<and> (FindNewReplicaSet d rss = Some rs \<longrightarrow> FindNewReplicaSet d rss' = Some rs')"
  using assms
proof (induction rss arbitrary: rss')
  case Nil
  then show ?case by simp
next
  case (Cons a rss)
  show ?case
  proof (cases "a = rs")
    case True
    with Cons.prems show ?thesis by auto
  next
    case False
    with Cons.prems obtain t where t: "conditionalUpdate rs rs' rss = Some t"
      and r: "rss' = a # t" by auto
    from Cons.IH[OF t Cons.prems(2,3)] r False show ?thesis by auto
  qed
qed

lemma remove1_old:
  "TemplateHash x \<noteq> Template d \<Longrightarrow>
     FindNewReplicaSet d (remove1 x rss) = FindNewReplicaSet d rss \<and>
     FindOldReplicaSets d (remove1 x rss) = remove1 x (FindOldReplicaSets d rss)"
  by (induction rss) auto

lemma sum_list_remove1_zero:
  "f x = (0::int) \<Longrightarrow> sum_list (map f (remove1 x xs)) = sum_list (map f xs)"
  by (induction xs) auto

lemma delete_invariant:
  assumes run: "deleteReplicaSets xs w = (e, w')"
      and start: "Q w"
      and call: "\<And>u x fl u1. x \<in> set xs \<Longrightarrow> Q u \<Longrightarrow> store_call (DeleteOp x) u = (fl, u1) \<Longrightarrow> Q u1"
      and del: "\<And>u x. x \<in> set xs \<Longrightarrow> Q u \<Longrightarrow> Q (u\<lparr>store := remove1 x (store u)\<rparr>)"
  shows "Q w'"
proof -
  have "deleteReplicaSets ys u = (e, w') \<Longrightarrow> set ys \<subseteq> set xs \<Longrightarrow> Q u \<Longrightarrow> Q w'" for ys u
  proof (induction ys arbitrary: u)
    case Nil
    then show ?case by simp
  next
    case (Cons a ys)
    obtain fl u1 where sc: "store_call (DeleteOp a) u = (fl, u1)" by (metis surj_pair)
    from Cons.prems have a: "a \<in> set xs" and ys: "set ys \<subseteq> set xs" by auto
    from call[OF a Cons.prems(3) sc] have q1: "Q u1" .
    show ?case
    proof (cases fl)
      case None
      with Cons.prems(1) sc
      have "deleteReplicaSets ys (u1\<lparr>store := remove1 a (store u1)\<rparr>) = (e, w')" by simp
      from Cons.IH[OF this ys del[OF a q1]] show ?thesis .
    next
      case (Some x)
      show ?thesis
      proof (cases "x = NotFoundError")
        case True
        with Cons.prems(1) sc Some have "deleteReplicaSets ys u1 = (e, w')" by simp
        from Cons.IH[OF this ys q1] show ?thesis .
      next
        case False
        with Cons.prems(1) sc Some have "w' = u1" by simp
        with q1 show ?thesis by simp
      qed
    qed
  qed
  from this[OF run _ start] show ?thesis by simp
qed

lemma store_call_fields:
  assumes "store_call op u = (fl, u1)"
  shows "store u1 = store u" "status u1 = status u" "events u1 = events u"
    "operations u1 = operations u @ [op]"
  using assms by (auto simp: store_call_def split: list.splits)

lemma delete_store:
  assumes "deleteReplicaSets xs w = (e, w')"
  shows "set (store w') \<subseteq> set (store w) \<and> status w' = status w \<and> events w' = events w"
proof (rule delete_invariant[OF assms, where Q = "\<lambda>u. set (store u) \<subseteq> set (store w) \<and> status u = status w \<and> events u = events w"])
  show "set (store w) \<subseteq> set (store w) \<and> status w = status w \<and> events w = events w" by simp
next
  fix u x fl u1
  assume "set (store u) \<subseteq> set (store w) \<and> status u = status w \<and> events u = events w"
    and "store_call (DeleteOp x) u = (fl, u1)"
  then show "set (store u1) \<subseteq> set (store w) \<and> status u1 = status w \<and> events u1 = events w"
    by (simp add: store_call_fields)
next
  fix u x
  assume "set (store u) \<subseteq> set (store w) \<and> status u = status w \<and> events u = events w"
  moreover have "set (remove1 x (store u)) \<subseteq> set (store u)" by (rule set_remove1_subset)
  ultimately show "set (store (u\<lparr>store := remove1 x (store u)\<rparr>)) \<subseteq> set (store w) \<and>
    status (u\<lparr>store := remove1 x (store u)\<rparr>) = status w \<and>
    events (u\<lparr>store := remove1 x (store u)\<rparr>) = events w"
    by auto
qed

lemma delete_operations:
  assumes "deleteReplicaSets xs w = (e, w')"
  shows "\<exists>ops. operations w' = operations w @ ops \<and>
               (\<forall>op \<in> set ops. \<not> is_scaling_op op \<and> \<not> is_create_op op)"
proof (rule delete_invariant[OF assms, where Q = "\<lambda>u. \<exists>ops. operations u = operations w @ ops \<and>
               (\<forall>op \<in> set ops. \<not> is_scaling_op op \<and> \<not> is_create_op op)"])
  show "\<exists>ops. operations w = operations w @ ops \<and>
               (\<forall>op \<in> set ops. \<not> is_scaling_op op \<and> \<not> is_create_op op)" by simp
next
  fix u x fl u1
  assume "\<exists>ops. operations u = operations w @ ops \<and>
               (\<forall>op \<in> set ops. \<not> is_scaling_op op \<and> \<not> is_create_op op)"
    and sc: "store_call (DeleteOp x) u = (fl, u1)"
  then obtain ops where "operations u = operations w @ ops"
    "\<forall>op \<in> set ops. \<not> is_scaling_op op \<and> \<not> is_create_op op" by blast
  with store_call_fields(4)[OF sc]
  have "operations u1 = operations w @ (ops @ [DeleteOp x]) \<and>
        (\<forall>op \<in> set (ops @ [DeleteOp x]). \<not> is_scaling_op op \<and> \<not> is_create_op op)"
    by simp
  then show "\<exists>ops. operations u1 = operations w @ ops \<and>
               (\<forall>op \<in> set ops. \<not> is_scaling_op op \<and> \<not> is_create_op op)" by blast
next
  fix u x
  assume "\<exists>ops. operations u = operations w @ ops \<and>
               (\<forall>op \<in> set ops. \<not> is_scaling_op op \<and> \<not> is_create_op op)"
  then show "\<exists>ops. operations (u\<lparr>store := remove1 x (store u)\<rparr>) = operations w @ ops \<and>
               (\<forall>op \<in> set ops. \<not> is_scaling_op op \<and> \<not> is_create_op op)" by simp
qed

lemma delete_classes:
  assumes "deleteReplicaSets xs w = (e, w')"
      and "\<forall>x \<in> set xs. TemplateHash x \<noteq> Template d \<and> f x = (0::int)"
  shows "FindNewReplicaSet d (store w') = FindNewReplicaSet d (store w) \<and>
         set (FindOldReplicaSets d (store w')) \<subseteq> set (FindOldReplicaSets d (store w)) \<and>
         sum_list (map f (FindOldReplicaSets d (store w'))) =
         sum_list (map f (FindOldReplicaSets d (store w)))"
proof (rule delete_invariant[OF assms(1), where Q = "\<lambda>u.
         FindNewReplicaSet d (store u) = FindNewReplicaSet d (store w) \<and>
         set (FindOldReplicaSets d (store u)) \<subseteq> set (FindOldReplicaSets d (store w)) \<and>
         sum_list (map f (FindOldReplicaSets d (store u))) =
         sum_list (map f (FindOldReplicaSets d (store w)))"])
  show "FindNewReplicaSet d (store w) = FindNewReplicaSet d (store w) \<and>
         set (FindOldReplicaSets d (store w)) \<subseteq> set (FindOldReplicaSets d (store w)) \<and>
         sum_list (map f (FindOldReplicaSets d (store w))) =
         sum_list (map f (FindOldReplicaSets d (store w)))" by simp
next
  fix u x fl u1
  assume "FindNewReplicaSet d (store u) = FindNewReplicaSet d (store w) \<and>
         set (FindOldReplicaSets d (store u)) \<subseteq> set (FindOldReplicaSets d (store w)) \<and>
         sum_list (map f (FindOldReplicaSets d (store u))) =
         sum_list (map f (FindOldReplicaSets d (store w)))"
    and "store_call (DeleteOp x) u = (fl, u1)"
  then show "FindNewReplicaSet d (store u1) = FindNewReplicaSet d (store w) \<and>
         set (FindOldReplicaSets d (store u1)) \<subseteq> set (FindOldReplicaSets d (store w)) \<and>
         sum_list (map f (FindOldReplicaSets d (store u1))) =
         sum_list (map f (FindOldReplicaSets d (store w)))"
    by (simp add: store_call_fields)
next
  fix u x
  assume x: "x \<in> set xs"
    and q: "FindNewReplicaSet d (store u) = FindNewReplicaSet d (store w) \<and>
         set (FindOldReplicaSets d (store u)) \<subseteq> set (FindOldReplicaSets d (store w)) \<and>
         sum_list (map f (FindOldReplicaSets d (store u))) =
         sum_list (map f (FindOldReplicaSets d (store w)))"
  from x assms(2) have hx: "TemplateHash x \<noteq> Template d" and fx: "f x = 0" by auto
  have sub: "set (remove1 x (FindOldReplicaSets d (store u))) \<subseteq> set (FindOldReplicaSets d (store u))"
    by (rule set_remove1_subset)
  from q sub remove1_old[OF hx, of "store u"]
    sum_list_remove1_zero[of f x "FindOldReplicaSets d (store u)"] fx
  show "FindNewReplicaSet d (store (u\<lparr>store := remove1 x (store u)\<rparr>)) = FindNewReplicaSet d (store w) \<and>
         set (FindOldReplicaSets d (store (u\<lparr>store := remove1 x (store u)\<rparr>))) \<subseteq> set (FindOldReplicaSets d (store w)) \<and>
         sum_list (map f (FindOldReplicaSets d (store (u\<lparr>store := remove1 x (store u)\<rparr>)))) =
         sum_list (map f (FindOldReplicaSets d (store w)))"
    by auto
qed


lemma FindOld_mono:
  "set rss' \<subseteq> set rss \<Longrightarrow> set (FindOldReplicaSets d rss') \<subseteq> set (FindOldReplicaSets d rss)"
  by (auto simp: FindOldReplicaSets_def)

lemma scaleUp_phase_olds:
  assumes run: "rolloutRecreate_scaleUp specified_controller d (Some rs) olds allRSs w = (r, w')"
      and hash: "TemplateHash rs = Template d"
  shows "set (FindOldReplicaSets d (store w')) \<subseteq> set (FindOldReplicaSets d (store w))"
proof -
  obtain b r0 e w1 where
    sc: "spec_scaleReplicaSetAndRecordEvent (Some rs) (Deployment_Replicas d) d w = ((b, r0, e), w1)"
    by (metis prod_cases3 surj_pair)
  have o1: "FindOldReplicaSets d (store w1) = FindOldReplicaSets d (store w)"
  proof (cases b)
    case True
    with scale_result[OF sc]
    have "conditionalUpdate rs (rs\<lparr>Spec_Replicas := Deployment_Replicas d\<rparr>) (store w) = Some (store w1)"
      by simp
    from conditionalUpdate_new[OF this, of d] hash show ?thesis by simp
  next
    case False
    with scale_result[OF sc] show ?thesis by simp
  qed
  show ?thesis
  proof (cases e)
    case (Some x)
    with run sc have "w' = w1"
      by (simp add: rolloutRecreate_scaleUp_def scaleUpNewReplicaSetForRecreate_def)
    with o1 show ?thesis by simp
  next
    case None
    show ?thesis
    proof (cases b)
      case True
      with run sc None have "computeAndPersist allRSs (Some rs) d w1 = (r, w')"
        by (simp add: rolloutRecreate_scaleUp_def scaleUpNewReplicaSetForRecreate_def)
      from persist_result[OF this] o1 show ?thesis by simp
    next
      case False
      obtain ce w2 where cl: "spec_cleanupDeployment olds d w1 = (ce, w2)" by (metis surj_pair)
      with run sc None False have "computeAndPersist allRSs (Some rs) d w2 = (r, w')"
        by (simp add: rolloutRecreate_scaleUp_def scaleUpNewReplicaSetForRecreate_def)
      from persist_result[OF this] have "store w' = store w2" by simp
      moreover from cl have "set (store w2) \<subseteq> set (store w1)"
        using delete_store by (simp add: spec_cleanupDeployment_def)
      ultimately show ?thesis using o1 FindOld_mono[of "store w2" "store w1" d] by simp
    qed
  qed
qed

lemma olds_down_no_overlap:
  "\<forall>old \<in> set (FindOldReplicaSets d rss). Spec_Replicas old \<le> 0 \<Longrightarrow> \<not> overlap d rss"
  by (auto simp: overlap_def list_ex_iff)

lemma inactive_olds_down:
  assumes "\<forall>rs \<in> set (FilterActiveReplicaSets olds). Spec_Replicas rs = 0"
  shows "\<forall>old \<in> set olds. Spec_Replicas old \<le> 0"
  using assms by (fastforce simp: FilterActiveReplicaSets_def)

lemma pass_keeps_no_overlap:
  assumes "\<not> overlap d (store w)"
  shows "\<not> overlap d (store (snd (rolloutRecreate specified_controller d w)))"
proof (cases rule: pass_cases[of specified_controller d w])
  case (first_resolution_failed newRS oldRSs e s1)
  with getAll_False[of d w newRS oldRSs "Some e" s1] assms show ?thesis by simp
next
  case (scale_down_failed newRS oldRSs s1 b e s2)
  from getAll_False[of d w newRS oldRSs None s1] scale_down_failed(1)
  have s1: "store s1 = store w" by simp
  from scale_down_failed(2) have "lowered (store s1) (store s2)"
    using loop_lowered by (simp add: scaleDownOldReplicaSetsForRecreate_def)
  with s1 assms lowered_overlap[of "store w" "store s2" d] scale_down_failed(3)
  show ?thesis by auto
next
  case (scaled_down newRS oldRSs s1 s2)
  from getAll_False[of d w newRS oldRSs None s1] scaled_down(1)
  have s1: "store s1 = store w" by simp
  from scaled_down(2) have "lowered (store s1) (store s2)"
    using loop_lowered by (simp add: scaleDownOldReplicaSetsForRecreate_def)
  with s1 assms lowered_overlap[of "store w" "store s2" d]
  have "\<not> overlap d (store s2)" by auto
  moreover from scaled_down(3)
    persist_result[of "map Some oldRSs @ [newRS]" newRS d s2
      "fst (rolloutRecreate specified_controller d w)" "snd (rolloutRecreate specified_controller d w)"]
  have "store (snd (rolloutRecreate specified_controller d w)) = store s2"
    by (simp add: prod_eq_iff)
  ultimately show ?thesis by simp
next
  case (second_resolution_failed oldRSs s1 s2 newRS' oldRSs' e s3)
  from getAll_False[of d w None oldRSs None s1] second_resolution_failed(1)
  have s1: "store s1 = store w" by simp
  from second_resolution_failed(2) have "s2 = s1"
    using loop_unscaled by (simp add: scaleDownOldReplicaSetsForRecreate_def)
  with getAll_True[of d s2 newRS' oldRSs' "Some e" s3] second_resolution_failed(3) s1
  have "store s3 = store w" by simp
  with second_resolution_failed(4) assms show ?thesis by simp
next
  case (created oldRSs s1 s2 newRS' oldRSs' s3)
  from getAll_False[of d w None oldRSs None s1] created(1)
  have s1: "store s1 = store w" and olds: "oldRSs = FindOldReplicaSets d (store w)"
    and nonew: "FindNewReplicaSet d (store w) = None" by simp_all
  from created(2) have s2: "s2 = s1" and z: "\<forall>rs \<in> set (FilterActiveReplicaSets oldRSs). Spec_Replicas rs = 0"
    using loop_unscaled by (simp_all add: scaleDownOldReplicaSetsForRecreate_def)
  from inactive_olds_down[OF z] olds
  have down: "\<forall>old \<in> set (FindOldReplicaSets d (store w)). Spec_Replicas old \<le> 0" by simp
  from getAll_True[of d s2 newRS' oldRSs' None s3] created(3) s1 s2 nonew
  have n: "newRS' = Some (newReplicaSetFor d)" and s3: "store s3 = newReplicaSetFor d # store w"
    by simp_all
  have h: "TemplateHash (newReplicaSetFor d) = Template d" by (simp add: newReplicaSetFor_def)
  from s3 h have o3: "FindOldReplicaSets d (store s3) = FindOldReplicaSets d (store w)" by simp
  from scaleUp_phase_olds[of d "newReplicaSetFor d" oldRSs' "map Some oldRSs' @ [newRS']" s3
      "fst (rolloutRecreate specified_controller d w)" "snd (rolloutRecreate specified_controller d w)"]
    created(4) n h o3
  have "set (FindOldReplicaSets d (store (snd (rolloutRecreate specified_controller d w))))
        \<subseteq> set (FindOldReplicaSets d (store w))" by simp
  with down show ?thesis by (intro olds_down_no_overlap) blast
next
  case (existing rs oldRSs s1 s2)
  from getAll_False[of d w "Some rs" oldRSs None s1] existing(1)
  have s1: "store s1 = store w" and olds: "oldRSs = FindOldReplicaSets d (store w)"
    and new: "FindNewReplicaSet d (store w) = Some rs" by simp_all
  from existing(2) have s2: "s2 = s1" and z: "\<forall>rs \<in> set (FilterActiveReplicaSets oldRSs). Spec_Replicas rs = 0"
    using loop_unscaled by (simp_all add: scaleDownOldReplicaSetsForRecreate_def)
  from inactive_olds_down[OF z] olds
  have down: "\<forall>old \<in> set (FindOldReplicaSets d (store w)). Spec_Replicas old \<le> 0" by simp
  from scaleUp_phase_olds[of d rs oldRSs "map Some oldRSs @ [Some rs]" s2
      "fst (rolloutRecreate specified_controller d w)" "snd (rolloutRecreate specified_controller d w)"]
    existing(3) FindNew_hash[OF new] s1 s2
  have "set (FindOldReplicaSets d (store (snd (rolloutRecreate specified_controller d w))))
        \<subseteq> set (FindOldReplicaSets d (store w))" by simp
  with down show ?thesis by (intro olds_down_no_overlap) blast
qed

section \<open>The barrier and the overlap of generations\<close>

lemma passes_keep_no_overlap:
  "\<not> overlap d (store w) \<Longrightarrow> \<forall>u \<in> set (passes d scripts w). \<not> overlap d (store u)"
proof (induction scripts arbitrary: w)
  case Nil
  then show ?case by simp
next
  case (Cons script scripts)
  from Cons.prems have "\<not> overlap d (store (w\<lparr>faults := script\<rparr>))" by simp
  from Cons.IH[OF pass_keeps_no_overlap[OF this]] Cons.prems show ?case by simp
qed

lemma scaled_down_pass:
  assumes g: "getAllReplicaSetsAndSyncRevision dc d False s = ((newRS, oldRSs, None), s1)"
      and sd: "scaleDownOldReplicaSetsForRecreate dc (FilterActiveReplicaSets oldRSs) d s1 =
                 ((scaledDown, err), s2)"
      and sc: "\<exists>c \<in> set (calls_of_scaleDown dc (FilterActiveReplicaSets oldRSs) d s1). call_scaled c"
  shows "err = None \<Longrightarrow>
           rolloutRecreate dc d s =
             updateDeploymentStatus dc (map Some oldRSs @ [newRS]) newRS d s2 \<and>
           calls_of_pass dc d s =
             GetAllReplicaSets False newRS oldRSs None #
             calls_of_scaleDown dc (FilterActiveReplicaSets oldRSs) d s1 @
             [UpdateStatus (map Some oldRSs @ [newRS]) newRS (fst (rolloutRecreate dc d s))]"
    and "err \<noteq> None \<Longrightarrow>
           rolloutRecreate dc d s = (err, s2) \<and>
           calls_of_pass dc d s =
             GetAllReplicaSets False newRS oldRSs None #
             calls_of_scaleDown dc (FilterActiveReplicaSets oldRSs) d s1"
    and "\<forall>c \<in> set (calls_of_pass dc d s).
           \<not> is_creating c \<and>
           (is_ScaleReplicaSet c \<longrightarrow>
              (\<exists>rs \<in> set oldRSs. \<exists>scaled e. c = ScaleReplicaSet (Some rs) 0 scaled e))"
proof -
  let ?sd = "calls_of_scaleDown dc (FilterActiveReplicaSets oldRSs) d s1"
  have kind: "\<not> is_creating c \<and>
           (\<exists>rs \<in> set oldRSs. \<exists>scaled e. c = ScaleReplicaSet (Some rs) 0 scaled e)"
    if c: "c \<in> set ?sd" for c
  proof -
    from c have c': "c \<in> set (scaleDown_calls dc (FilterActiveReplicaSets oldRSs) d s1)"
      by (simp only: calls_of_scaleDown_eq)
    from scaleDown_calls_are_scaling[OF c'] obtain rs b e where
      "c = ScaleReplicaSet (Some rs) 0 b e" "rs \<in> set (FilterActiveReplicaSets oldRSs)" by blast
    then show ?thesis by (auto simp: FilterActiveReplicaSets_def)
  qed
  have a: "rolloutRecreate dc d s =
             updateDeploymentStatus dc (map Some oldRSs @ [newRS]) newRS d s2 \<and>
           calls_of_pass dc d s =
             GetAllReplicaSets False newRS oldRSs None # ?sd @
             [UpdateStatus (map Some oldRSs @ [newRS]) newRS (fst (rolloutRecreate dc d s))]"
    if e: "err = None"
  proof -
    from scaleDown_result_calls[OF sd] e sc have "scaledDown"
      by (simp add: calls_of_scaleDown_eq)
    with sd e have "scaleDownOldReplicaSetsForRecreate dc (FilterActiveReplicaSets oldRSs) d s1 =
                 ((True, None), s2)" by simp
    from barrier_pass[OF g this] show ?thesis by simp
  qed
  have b: "rolloutRecreate dc d s = (err, s2) \<and>
           calls_of_pass dc d s = GetAllReplicaSets False newRS oldRSs None # ?sd"
    if e: "err \<noteq> None"
  proof -
    from e obtain x where x: "err = Some x" by auto
    with g sd show ?thesis
      by (simp add: rolloutRecreate_def calls_of_pass_eq pass_calls_def calls_of_scaleDown_eq)
  qed
  from a show "err = None \<Longrightarrow>
           rolloutRecreate dc d s =
             updateDeploymentStatus dc (map Some oldRSs @ [newRS]) newRS d s2 \<and>
           calls_of_pass dc d s =
             GetAllReplicaSets False newRS oldRSs None # ?sd @
             [UpdateStatus (map Some oldRSs @ [newRS]) newRS (fst (rolloutRecreate dc d s))]" .
  from b show "err \<noteq> None \<Longrightarrow>
           rolloutRecreate dc d s = (err, s2) \<and>
           calls_of_pass dc d s = GetAllReplicaSets False newRS oldRSs None # ?sd" .
  show "\<forall>c \<in> set (calls_of_pass dc d s).
           \<not> is_creating c \<and>
           (is_ScaleReplicaSet c \<longrightarrow>
              (\<exists>rs \<in> set oldRSs. \<exists>scaled e. c = ScaleReplicaSet (Some rs) 0 scaled e))"
  proof (cases "err = None")
    case True
    from a[OF True] kind show ?thesis by auto
  next
    case False
    from b[OF False] kind show ?thesis by auto
  qed
qed

text \<open>
  C1. First part, for every controller: take a pass whose first resolution succeeds and
  whose scale-down phase contains a scaling call that reports a change (an old replica
  set was actually scaled down). No call of the pass creates a replica set, and every
  scaling call of the pass scales an old replica set to zero: there is no second
  resolution and no scaling of the new replica set. What the pass returns depends on
  the rest of the phase. When the scale-down returns no error, the pass is the status
  update and nothing after it: it returns what \<open>updateDeploymentStatus\<close> returns, success
  exactly when that write succeeds, in the state that the write leaves. When a later old
  replica set fails to scale, the pass returns that error, and its calls end with the
  scale-down: no status is written.
  Second part, on the store of the specification, whatever the store's answers are:
  from a stored state without overlap, no state observed between passes has an old
  replica set and the new one both with a desired count above zero.
\<close>

theorem recreate_barrier_no_overlap:
  "(getAllReplicaSetsAndSyncRevision dc deployment False s = ((newRS, oldRSs, None), s1) \<and>
    scaleDownOldReplicaSetsForRecreate dc (FilterActiveReplicaSets oldRSs) deployment s1 =
      ((scaledDown, err), s2) \<and>
    (\<exists>c \<in> set (calls_of_scaleDown dc (FilterActiveReplicaSets oldRSs) deployment s1).
       call_scaled c) \<longrightarrow>
      (\<forall>c \<in> set (calls_of_pass dc deployment s).
         \<not> is_creating c \<and>
         (is_ScaleReplicaSet c \<longrightarrow>
            (\<exists>rs \<in> set oldRSs. \<exists>scaled e. c = ScaleReplicaSet (Some rs) 0 scaled e)))
      \<and> (err = None \<longrightarrow>
            rolloutRecreate dc deployment s =
              updateDeploymentStatus dc (map Some oldRSs @ [newRS]) newRS deployment s2 \<and>
            calls_of_pass dc deployment s =
              GetAllReplicaSets False newRS oldRSs None #
              calls_of_scaleDown dc (FilterActiveReplicaSets oldRSs) deployment s1 @
              [UpdateStatus (map Some oldRSs @ [newRS]) newRS
                 (fst (rolloutRecreate dc deployment s))])
      \<and> (err \<noteq> None \<longrightarrow>
            rolloutRecreate dc deployment s = (err, s2) \<and>
            calls_of_pass dc deployment s =
              GetAllReplicaSets False newRS oldRSs None #
              calls_of_scaleDown dc (FilterActiveReplicaSets oldRSs) deployment s1))
   \<and> (\<not> overlap deployment (store w) \<longrightarrow>
        (\<forall>u \<in> set (passes deployment scripts w). \<not> overlap deployment (store u)))"
proof (intro conjI impI)
  assume a: "getAllReplicaSetsAndSyncRevision dc deployment False s = ((newRS, oldRSs, None), s1) \<and>
    scaleDownOldReplicaSetsForRecreate dc (FilterActiveReplicaSets oldRSs) deployment s1 =
      ((scaledDown, err), s2) \<and>
    (\<exists>c \<in> set (calls_of_scaleDown dc (FilterActiveReplicaSets oldRSs) deployment s1).
       call_scaled c)"
  then have g: "getAllReplicaSetsAndSyncRevision dc deployment False s = ((newRS, oldRSs, None), s1)"
    and sd: "scaleDownOldReplicaSetsForRecreate dc (FilterActiveReplicaSets oldRSs) deployment s1 =
      ((scaledDown, err), s2)"
    and sc: "\<exists>c \<in> set (calls_of_scaleDown dc (FilterActiveReplicaSets oldRSs) deployment s1).
       call_scaled c"
    by blast+
  note k = scaled_down_pass[OF g sd sc]
  from k(3) show "\<forall>c \<in> set (calls_of_pass dc deployment s).
         \<not> is_creating c \<and>
         (is_ScaleReplicaSet c \<longrightarrow>
            (\<exists>rs \<in> set oldRSs. \<exists>scaled e. c = ScaleReplicaSet (Some rs) 0 scaled e))" .
  {
    assume e: "err = None"
    from k(1)[OF e]
    show "rolloutRecreate dc deployment s =
              updateDeploymentStatus dc (map Some oldRSs @ [newRS]) newRS deployment s2"
      and "calls_of_pass dc deployment s =
              GetAllReplicaSets False newRS oldRSs None #
              calls_of_scaleDown dc (FilterActiveReplicaSets oldRSs) deployment s1 @
              [UpdateStatus (map Some oldRSs @ [newRS]) newRS
                 (fst (rolloutRecreate dc deployment s))]"
      by blast+
  }
  {
    assume e: "err \<noteq> None"
    from k(2)[OF e]
    show "rolloutRecreate dc deployment s = (err, s2)"
      and "calls_of_pass dc deployment s =
              GetAllReplicaSets False newRS oldRSs None #
              calls_of_scaleDown dc (FilterActiveReplicaSets oldRSs) deployment s1"
      by blast+
  }
next
  assume "\<not> overlap deployment (store w)"
  then show "\<forall>u \<in> set (passes deployment scripts w). \<not> overlap deployment (store u)"
    by (rule passes_keep_no_overlap)
qed

theorem recreate_barrier_no_overlap_witness:
  "rolloutRecreate specified_controller web
     (world_of [replica_set ''web-v2'' ''v2'' 5 5, replica_set ''web-v1'' ''v1'' 0 2] []) =
   (None,
    \<lparr> store = [replica_set ''web-v2'' ''v2'' 0 5, replica_set ''web-v1'' ''v1'' 0 2],
      status = Some \<lparr>ObservedGeneration = 7, Replicas = 7, UpdatedReplicas = 0,
                     AvailableReplicas = 7, UnavailableReplicas = 0\<rparr>,
      events = [\<lparr>subject = ''web-v2'', scaling = ScaledDown, fromCount = 5, toCount = 0\<rparr>],
      operations = [ListOp, ConditionalUpdateOp (replica_set ''web-v2'' ''v2'' 5 5) 0,
                    StatusWriteOp],
      faults = [] \<rparr>)
   \<and> list_all (\<lambda>u. \<not> overlap web (store u))
        (passes web [[], [None, Some ConflictError], [], []]
           (world_of [replica_set ''web-v2'' ''v2'' 5 5, replica_set ''web-v1'' ''v1'' 0 2] []))"
proof -
  let ?a = "replica_set ''web-v2'' ''v2'' 5 5"
  let ?b = "replica_set ''web-v1'' ''v1'' 0 2"
  let ?w = "world_of [?a, ?b] []"
  let ?w1 = "snd (getAllReplicaSetsAndSyncRevision specified_controller web False ?w)"
  let ?w2 = "snd (scaleDownOldReplicaSetsForRecreate specified_controller
                    (FilterActiveReplicaSets [?a, ?b]) web ?w1)"
  have h1: "getAllReplicaSetsAndSyncRevision specified_controller web False ?w =
              ((None, [?a, ?b], None), ?w1)"
    by (simp add: spec_defs prod_eq_iff)
  have h2: "scaleDownOldReplicaSetsForRecreate specified_controller
              (FilterActiveReplicaSets [?a, ?b]) web ?w1 = ((True, None), ?w2)"
    by (simp add: spec_defs prod_eq_iff)
  have h3: "\<exists>c \<in> set (calls_of_scaleDown specified_controller
              (FilterActiveReplicaSets [?a, ?b]) web ?w1). call_scaled c"
    by (simp add: calls_of_scaleDown_eq spec_defs)
  have h4: "\<not> overlap web (store ?w)"
    by (simp add: overlap_def spec_defs)
  have u: "updateDeploymentStatus specified_controller (map Some [?a, ?b] @ [None]) None web ?w2 =
   (None,
    \<lparr> store = [replica_set ''web-v2'' ''v2'' 0 5, replica_set ''web-v1'' ''v1'' 0 2],
      status = Some \<lparr>ObservedGeneration = 7, Replicas = 7, UpdatedReplicas = 0,
                     AvailableReplicas = 7, UnavailableReplicas = 0\<rparr>,
      events = [\<lparr>subject = ''web-v2'', scaling = ScaledDown, fromCount = 5, toCount = 0\<rparr>],
      operations = [ListOp, ConditionalUpdateOp (replica_set ''web-v2'' ''v2'' 5 5) 0,
                    StatusWriteOp],
      faults = [] \<rparr>)"
    by (simp add: spec_defs)
  note t = recreate_barrier_no_overlap[where dc = specified_controller and deployment = web
      and s = ?w and newRS = None and oldRSs = "[?a, ?b]" and ?s1.0 = ?w1 and ?s2.0 = ?w2
      and scaledDown = True and err = None and w = ?w
      and scripts = "[[], [None, Some ConflictError], [], []]"]
  from t h1 h2 h3 have "rolloutRecreate specified_controller web ?w =
      updateDeploymentStatus specified_controller (map Some [?a, ?b] @ [None]) None web ?w2"
    by blast
  with u have r: "rolloutRecreate specified_controller web ?w =
   (None,
    \<lparr> store = [replica_set ''web-v2'' ''v2'' 0 5, replica_set ''web-v1'' ''v1'' 0 2],
      status = Some \<lparr>ObservedGeneration = 7, Replicas = 7, UpdatedReplicas = 0,
                     AvailableReplicas = 7, UnavailableReplicas = 0\<rparr>,
      events = [\<lparr>subject = ''web-v2'', scaling = ScaledDown, fromCount = 5, toCount = 0\<rparr>],
      operations = [ListOp, ConditionalUpdateOp (replica_set ''web-v2'' ''v2'' 5 5) 0,
                    StatusWriteOp],
      faults = [] \<rparr>)"
    by (simp only:)
  from t h4 have "list_all (\<lambda>u. \<not> overlap web (store u))
        (passes web [[], [None, Some ConflictError], [], []] ?w)"
    by (simp add: list_all_iff)
  with r show ?thesis by (intro conjI)
qed

text \<open>
  A pass that scaled an old replica set down need not write status, nor return
  success. In the first pass below \<open>web-v2\<close> is scaled to zero and the conditional update
  of \<open>web-v1\<close> meets a conflict: the pass returns the conflict and no status is written
  (lines 35 to 37 and 77 to 80). In the second pass the one old replica set is scaled to
  zero and the status write fails: the pass returns the error of the write (line 40).
\<close>

theorem scale_down_progress_can_fail:
  "rolloutRecreate specified_controller web
     (world_of [replica_set ''web-v2'' ''v2'' 5 5, replica_set ''web-v1'' ''v1'' 3 3]
        [None, None, Some ConflictError]) =
   (Some ConflictError,
    \<lparr> store = [replica_set ''web-v2'' ''v2'' 0 5, replica_set ''web-v1'' ''v1'' 3 3],
      status = None,
      events = [\<lparr>subject = ''web-v2'', scaling = ScaledDown, fromCount = 5, toCount = 0\<rparr>],
      operations = [ListOp, ConditionalUpdateOp (replica_set ''web-v2'' ''v2'' 5 5) 0,
                    ConditionalUpdateOp (replica_set ''web-v1'' ''v1'' 3 3) 0],
      faults = [] \<rparr>)
   \<and> calls_of_pass specified_controller web
     (world_of [replica_set ''web-v2'' ''v2'' 5 5, replica_set ''web-v1'' ''v1'' 3 3]
        [None, None, Some ConflictError]) =
     [GetAllReplicaSets False None
        [replica_set ''web-v2'' ''v2'' 5 5, replica_set ''web-v1'' ''v1'' 3 3] None,
      ScaleReplicaSet (Some (replica_set ''web-v2'' ''v2'' 5 5)) 0 True None,
      ScaleReplicaSet (Some (replica_set ''web-v1'' ''v1'' 3 3)) 0 False (Some ConflictError)]
   \<and> rolloutRecreate specified_controller web
     (world_of [replica_set ''web-v2'' ''v2'' 5 5] [None, None, Some TransientStoreError]) =
   (Some TransientStoreError,
    \<lparr> store = [replica_set ''web-v2'' ''v2'' 0 5],
      status = None,
      events = [\<lparr>subject = ''web-v2'', scaling = ScaledDown, fromCount = 5, toCount = 0\<rparr>],
      operations = [ListOp, ConditionalUpdateOp (replica_set ''web-v2'' ''v2'' 5 5) 0,
                    StatusWriteOp],
      faults = [] \<rparr>)
   \<and> calls_of_pass specified_controller web
     (world_of [replica_set ''web-v2'' ''v2'' 5 5] [None, None, Some TransientStoreError]) =
     [GetAllReplicaSets False None [replica_set ''web-v2'' ''v2'' 5 5] None,
      ScaleReplicaSet (Some (replica_set ''web-v2'' ''v2'' 5 5)) 0 True None,
      UpdateStatus [Some (replica_set ''web-v2'' ''v2'' 5 5), None] None
        (Some TransientStoreError)]"
  by (simp add: spec_defs calls_of_pass_eq pass_calls_def)

section \<open>Passes that have nothing to scale\<close>

lemma loop_all_zero:
  "\<forall>rs \<in> set olds. Spec_Replicas rs = 0 \<Longrightarrow>
     scaleDownOldReplicaSetsForRecreate_loop dc olds d acc s = ((acc, None), s) \<and>
     scaleDown_calls dc olds d s = []"
  by (induction olds) simp_all

lemma scaleDown_all_zero:
  "\<forall>rs \<in> set olds. Spec_Replicas rs = 0 \<Longrightarrow>
     scaleDownOldReplicaSetsForRecreate dc olds d s = ((False, None), s) \<and>
     calls_of_scaleDown dc olds d s = []"
  by (simp add: scaleDownOldReplicaSetsForRecreate_def loop_all_zero calls_of_scaleDown_eq)

lemma map_filter_Some [simp]:
  "List.map_filter (\<lambda>p. p) (map Some xs @ [Some x]) = xs @ [x]"
  "List.map_filter (\<lambda>p. p) (map Some xs @ [None]) = xs"
  by (induction xs) (simp_all add: List.map_filter_def)

lemma stable_new:
  "stable d rss \<Longrightarrow> \<exists>new. FindNewReplicaSet d rss = Some new \<and>
     Spec_Replicas new = Deployment_Replicas d"
  by (auto simp: stable_def split: option.splits)

lemma stable_olds:
  "stable d rss \<Longrightarrow> \<forall>old \<in> set (FindOldReplicaSets d rss). Spec_Replicas old = 0"
  by (auto simp: stable_def list_all_iff)

text \<open>What a pass does from a stable state when its listing succeeds.\<close>

lemma stable_pass:
  assumes st: "stable d (store w)" and ok: "next_succeeds w"
  shows "\<exists>new w1 cerr w2.
    FindNewReplicaSet d (store w) = Some new \<and>
    Spec_Replicas new = Deployment_Replicas d \<and>
    spec_getAllReplicaSetsAndSyncRevision d False w =
       ((Some new, FindOldReplicaSets d (store w), None), w1) \<and>
    spec_cleanupDeployment (FindOldReplicaSets d (store w)) d w1 = (cerr, w2) \<and>
    rolloutRecreate specified_controller d w =
       computeAndPersist (map Some (FindOldReplicaSets d (store w)) @ [Some new]) (Some new) d w2 \<and>
    calls_of_pass specified_controller d w =
       [GetAllReplicaSets False (Some new) (FindOldReplicaSets d (store w)) None,
        ScaleReplicaSet (Some new) (Deployment_Replicas d) False None,
        Cleanup (FindOldReplicaSets d (store w)) cerr,
        SyncStatus (map Some (FindOldReplicaSets d (store w)) @ [Some new]) (Some new)
          (fst (rolloutRecreate specified_controller d w))]"
proof -
  from stable_new[OF st] obtain new where
    n: "FindNewReplicaSet d (store w) = Some new" and t: "Spec_Replicas new = Deployment_Replicas d"
    by blast
  let ?olds = "FindOldReplicaSets d (store w)"
  obtain a b e w1 where g: "spec_getAllReplicaSetsAndSyncRevision d False w = ((a, b, e), w1)"
    by (metis prod_cases3 surj_pair)
  from getAll_False[OF g] ok n
  have g': "spec_getAllReplicaSetsAndSyncRevision d False w = ((Some new, ?olds, None), w1)"
    using g by simp
  from stable_olds[OF st] have z: "\<forall>rs \<in> set (FilterActiveReplicaSets ?olds). Spec_Replicas rs = 0"
    by (simp add: FilterActiveReplicaSets_def)
  note sd = scaleDown_all_zero[OF z, of specified_controller d w1]
  obtain cerr w2 where cl: "spec_cleanupDeployment ?olds d w1 = (cerr, w2)" by (metis surj_pair)
  have r: "rolloutRecreate specified_controller d w =
       computeAndPersist (map Some ?olds @ [Some new]) (Some new) d w2"
    using g' sd cl t
    by (simp add: rolloutRecreate_def rolloutRecreate_scaleUp_def
        scaleUpNewReplicaSetForRecreate_def scale_at_target)
  have c: "calls_of_pass specified_controller d w =
       [GetAllReplicaSets False (Some new) ?olds None,
        ScaleReplicaSet (Some new) (Deployment_Replicas d) False None,
        Cleanup ?olds cerr,
        SyncStatus (map Some ?olds @ [Some new]) (Some new)
          (fst (rolloutRecreate specified_controller d w))]"
    using g' sd cl t r
    by (simp add: calls_of_pass_eq pass_calls_def scaleUp_calls_def scale_at_target
        calls_of_scaleDown_eq)
  from n t g' cl r c show ?thesis by (intro exI conjI)
qed

lemma cleanup_of_olds:
  assumes cl: "spec_cleanupDeployment (FindOldReplicaSets d (store w1)) d w1 = (cerr, w2)"
  shows "FindNewReplicaSet d (store w2) = FindNewReplicaSet d (store w1)"
    and "set (FindOldReplicaSets d (store w2)) \<subseteq> set (FindOldReplicaSets d (store w1))"
    and "status w2 = status w1" and "events w2 = events w1"
    and "\<exists>ops. operations w2 = operations w1 @ ops \<and>
               (\<forall>op \<in> set ops. \<not> is_scaling_op op \<and> \<not> is_create_op op)"
    and "counts_consistent (store w1) \<Longrightarrow>
           sum_list (map Status_Replicas (FindOldReplicaSets d (store w2))) =
           sum_list (map Status_Replicas (FindOldReplicaSets d (store w1))) \<and>
           sum_list (map Status_AvailableReplicas (FindOldReplicaSets d (store w2))) =
           sum_list (map Status_AvailableReplicas (FindOldReplicaSets d (store w1)))"
proof -
  define xs where "xs = filter (\<lambda>rs. Spec_Replicas rs = 0 \<and> Status_Replicas rs = 0)
               (rev (drop (RevisionHistoryLimit d) (FindOldReplicaSets d (store w1))))"
  from cl have del: "deleteReplicaSets xs w1 = (cerr, w2)"
    by (simp add: spec_cleanupDeployment_def xs_def)
  have mem: "x \<in> set (store w1) \<and> TemplateHash x \<noteq> Template d \<and> Status_Replicas x = 0"
    if x: "x \<in> set xs" for x
  proof -
    from x have p: "Status_Replicas x = 0"
      and dr: "x \<in> set (drop (RevisionHistoryLimit d) (FindOldReplicaSets d (store w1)))"
      by (simp_all add: xs_def)
    from in_set_dropD[OF dr] have "x \<in> set (FindOldReplicaSets d (store w1))" .
    with p show ?thesis by (simp add: FindOldReplicaSets_def)
  qed
  have pr1: "\<forall>x \<in> set xs. TemplateHash x \<noteq> Template d \<and> Status_Replicas x = 0"
    using mem by blast
  note c1 = delete_classes[OF del pr1]
  from c1 show "FindNewReplicaSet d (store w2) = FindNewReplicaSet d (store w1)" by (rule conjunct1)
  from c1 show "set (FindOldReplicaSets d (store w2)) \<subseteq> set (FindOldReplicaSets d (store w1))"
    by blast
  note ds = delete_store[OF del]
  from ds show "status w2 = status w1" by blast
  from ds show "events w2 = events w1" by blast
  from delete_operations[OF del]
  show "\<exists>ops. operations w2 = operations w1 @ ops \<and>
               (\<forall>op \<in> set ops. \<not> is_scaling_op op \<and> \<not> is_create_op op)" .
  assume cc: "counts_consistent (store w1)"
  have av: "Status_AvailableReplicas x = 0" if x: "x \<in> set xs" for x
  proof -
    from mem[OF x] have m: "x \<in> set (store w1)" and z: "Status_Replicas x = 0" by blast+
    from cc m have "0 \<le> Status_AvailableReplicas x \<and> Status_AvailableReplicas x \<le> Status_Replicas x"
      by (simp add: counts_consistent_def list_all_iff)
    with z show ?thesis by simp
  qed
  have pr2: "\<forall>x \<in> set xs. TemplateHash x \<noteq> Template d \<and> Status_AvailableReplicas x = 0"
    using mem av by blast
  note c2 = delete_classes[OF del pr2]
  from c1 c2
  show "sum_list (map Status_Replicas (FindOldReplicaSets d (store w2))) =
           sum_list (map Status_Replicas (FindOldReplicaSets d (store w1))) \<and>
           sum_list (map Status_AvailableReplicas (FindOldReplicaSets d (store w2))) =
           sum_list (map Status_AvailableReplicas (FindOldReplicaSets d (store w1)))"
    by blast
qed

lemma status_of_sums:
  "FindNewReplicaSet d rss' = FindNewReplicaSet d rss \<Longrightarrow>
   sum_list (map Status_Replicas (FindOldReplicaSets d rss')) =
     sum_list (map Status_Replicas (FindOldReplicaSets d rss)) \<Longrightarrow>
   sum_list (map Status_AvailableReplicas (FindOldReplicaSets d rss')) =
     sum_list (map Status_AvailableReplicas (FindOldReplicaSets d rss)) \<Longrightarrow>
   status_of d rss' = status_of d rss"
  by (cases "FindNewReplicaSet d rss") (simp_all add: status_of_def calculateStatus_def)

lemma stable_subset:
  assumes "stable d rss" and "FindNewReplicaSet d rss' = FindNewReplicaSet d rss"
      and "set (FindOldReplicaSets d rss') \<subseteq> set (FindOldReplicaSets d rss)"
  shows "stable d rss'"
  using assms by (auto simp: stable_def list_all_iff)

lemma counts_consistent_subset:
  "counts_consistent rss \<Longrightarrow> set rss' \<subseteq> set rss \<Longrightarrow> counts_consistent rss'"
  by (auto simp: counts_consistent_def list_all_iff)

lemma failed_listing_pass:
  assumes nok: "\<not> next_succeeds w"
      and run: "rolloutRecreate specified_controller d w = (r, w')"
  shows "r \<noteq> None" and "store w' = store w" and "status w' = status w"
    and "events w' = events w" and "operations w' = operations w @ [ListOp]"
    and "\<exists>a b. calls_of_pass specified_controller d w = [GetAllReplicaSets False a b r]"
proof -
  obtain a b e w1 where g: "spec_getAllReplicaSetsAndSyncRevision d False w = ((a, b, e), w1)"
    by (metis prod_cases3 surj_pair)
  note g1 = getAll_False[OF g]
  from g1 nok obtain x where e: "e = Some x" by auto
  from g e run have p: "r = Some x" "w' = w1"
    by (simp_all add: rolloutRecreate_def)
  from p show "r \<noteq> None" by simp
  from g1 p show "store w' = store w" by simp
  from g1 p show "status w' = status w" by simp
  from g1 p show "events w' = events w" by simp
  from g1 p show "operations w' = operations w @ [ListOp]" by simp
  from g e p have "calls_of_pass specified_controller d w = [GetAllReplicaSets False a b r]"
    by (simp add: calls_of_pass_eq pass_calls_def)
  then show "\<exists>a b. calls_of_pass specified_controller d w = [GetAllReplicaSets False a b r]"
    by blast
qed


lemma stable_listed_pass:
  assumes st: "stable d (store w)" and ok: "next_succeeds w"
      and run: "rolloutRecreate specified_controller d w = (r, w')"
  shows "filter (\<lambda>op. is_scaling_op op \<or> is_create_op op) (operations w') =
           filter (\<lambda>op. is_scaling_op op \<or> is_create_op op) (operations w)"
    and "events w' = events w"
    and "FindNewReplicaSet d (store w') = FindNewReplicaSet d (store w)"
    and "set (FindOldReplicaSets d (store w')) \<subseteq> set (FindOldReplicaSets d (store w))"
    and "set (store w') \<subseteq> set (store w)"
    and "status w' = (if r = None then Some (status_of d (store w)) else status w)"
    and "counts_consistent (store w) \<Longrightarrow> status_of d (store w') = status_of d (store w)"
proof -
  from stable_pass[OF st ok] obtain new w1 cerr w2 where
    n: "FindNewReplicaSet d (store w) = Some new"
    and g: "spec_getAllReplicaSetsAndSyncRevision d False w =
              ((Some new, FindOldReplicaSets d (store w), None), w1)"
    and cl: "spec_cleanupDeployment (FindOldReplicaSets d (store w)) d w1 = (cerr, w2)"
    and p: "rolloutRecreate specified_controller d w =
              computeAndPersist (map Some (FindOldReplicaSets d (store w)) @ [Some new]) (Some new) d w2"
    by (elim exE conjE)
  note g1 = getAll_False[OF g]
  from g1 have s1: "store w1 = store w" by (rule conjunct1)
  from g1 have t1: "status w1 = status w" by blast
  from g1 have e1: "events w1 = events w" by blast
  from g1 have o1: "operations w1 = operations w @ [ListOp]" by blast
  from cl have cl': "spec_cleanupDeployment (FindOldReplicaSets d (store w1)) d w1 = (cerr, w2)"
    by (simp only: s1)
  note k = cleanup_of_olds[OF cl']
  from p run have pp: "computeAndPersist (map Some (FindOldReplicaSets d (store w)) @ [Some new]) (Some new) d w2
                     = (r, w')"
    by (simp only:)
  note pr = persist_result[OF pp]
  from pr have sw: "store w' = store w2" by (rule conjunct1)
  from pr have ew: "events w' = events w2" by blast
  from pr have ow: "operations w' = operations w2 @ [StatusWriteOp]" by blast
  from pr have tw: "status w' = (if r = None
      then Some (calculateStatus (map Some (FindOldReplicaSets d (store w)) @ [Some new]) (Some new) d)
      else status w2)" by blast
  from k(5) obtain ops where ops: "operations w2 = operations w1 @ ops"
    and nops: "\<forall>op \<in> set ops. \<not> is_scaling_op op \<and> \<not> is_create_op op" by blast
  from nops have f0: "filter (\<lambda>op. is_scaling_op op \<or> is_create_op op) ops = []"
    by (simp add: filter_empty_conv)
  show "filter (\<lambda>op. is_scaling_op op \<or> is_create_op op) (operations w') =
           filter (\<lambda>op. is_scaling_op op \<or> is_create_op op) (operations w)"
    by (simp add: ow ops o1 f0)
  show "events w' = events w"
    by (simp only: ew k(4) e1)
  show fn: "FindNewReplicaSet d (store w') = FindNewReplicaSet d (store w)"
    using k(1) by (simp only: sw s1)
  show "set (FindOldReplicaSets d (store w')) \<subseteq> set (FindOldReplicaSets d (store w))"
    using k(2) by (simp only: sw s1)
  from cl have "deleteReplicaSets (filter (\<lambda>rs. Spec_Replicas rs = 0 \<and> Status_Replicas rs = 0)
          (rev (drop (RevisionHistoryLimit d) (FindOldReplicaSets d (store w))))) w1 = (cerr, w2)"
    by (simp only: spec_cleanupDeployment_def)
  from delete_store[OF this] have "set (store w2) \<subseteq> set (store w1)" by (rule conjunct1)
  then show "set (store w') \<subseteq> set (store w)" by (simp only: sw s1)
  have "status_of d (store w) =
          calculateStatus (map Some (FindOldReplicaSets d (store w)) @ [Some new]) (Some new) d"
    by (simp only: status_of_def n)
  then show "status w' = (if r = None then Some (status_of d (store w)) else status w)"
    by (simp only: tw k(3) t1)
  assume cc: "counts_consistent (store w)"
  then have "counts_consistent (store w1)" by (simp only: s1)
  from k(6)[OF this] have sums:
    "sum_list (map Status_Replicas (FindOldReplicaSets d (store w'))) =
       sum_list (map Status_Replicas (FindOldReplicaSets d (store w)))"
    "sum_list (map Status_AvailableReplicas (FindOldReplicaSets d (store w'))) =
       sum_list (map Status_AvailableReplicas (FindOldReplicaSets d (store w)))"
    by (simp_all only: sw s1)
  from status_of_sums[OF fn sums] show "status_of d (store w') = status_of d (store w)" .
qed

section \<open>Stable states\<close>

lemma stable_step:
  assumes st: "stable d (store w)"
      and run: "rolloutRecreate specified_controller d w = (r, w')"
  shows "scaling_operations w' = scaling_operations w"
    and "events w' = events w"
    and "stable d (store w')"
    and "set (store w') \<subseteq> set (store w)"
    and "status w' = (if r = None then Some (status_of d (store w)) else status w)"
    and "counts_consistent (store w) \<Longrightarrow> status_of d (store w') = status_of d (store w)"
proof -
  show "scaling_operations w' = scaling_operations w"
  proof (cases "next_succeeds w")
    case True
    from stable_listed_pass(1)[OF st True run] show ?thesis by (simp only: scaling_operations_def)
  next
    case False
    from failed_listing_pass(5)[OF False run] show ?thesis by (simp add: scaling_operations_def)
  qed
  show "events w' = events w"
  proof (cases "next_succeeds w")
    case True
    from stable_listed_pass(2)[OF st True run] show ?thesis .
  next
    case False
    from failed_listing_pass(4)[OF False run] show ?thesis .
  qed
  show "stable d (store w')"
  proof (cases "next_succeeds w")
    case True
    from stable_subset[OF st stable_listed_pass(3)[OF st True run] stable_listed_pass(4)[OF st True run]]
    show ?thesis .
  next
    case False
    from failed_listing_pass(2)[OF False run] st show ?thesis by (simp only:)
  qed
  show "set (store w') \<subseteq> set (store w)"
  proof (cases "next_succeeds w")
    case True
    from stable_listed_pass(5)[OF st True run] show ?thesis .
  next
    case False
    from failed_listing_pass(2)[OF False run] show ?thesis by simp
  qed
  show "status w' = (if r = None then Some (status_of d (store w)) else status w)"
  proof (cases "next_succeeds w")
    case True
    from stable_listed_pass(6)[OF st True run] show ?thesis .
  next
    case False
    from failed_listing_pass(1,3)[OF False run] show ?thesis by auto
  qed
  assume cc: "counts_consistent (store w)"
  show "status_of d (store w') = status_of d (store w)"
  proof (cases "next_succeeds w")
    case True
    from stable_listed_pass(7)[OF st True run cc] show ?thesis .
  next
    case False
    from failed_listing_pass(2)[OF False run] show ?thesis by (simp only:)
  qed
qed

lemma stable_passes:
  assumes "stable d (store w)" and "counts_consistent (store w)"
      and "status_of d (store w) = S" and "events w = E" and "scaling_operations w = F"
      and "status w = T \<or> status w = Some S"
  shows "\<forall>u \<in> set (passes d scripts w).
           stable d (store u) \<and> status_of d (store u) = S \<and> events u = E \<and>
           scaling_operations u = F \<and> (status u = T \<or> status u = Some S)"
  using assms
proof (induction scripts arbitrary: w)
  case Nil
  then show ?case by simp
next
  case (Cons script scripts)
  let ?w = "w\<lparr>faults := script\<rparr>"
  obtain r w' where run: "rolloutRecreate specified_controller d ?w = (r, w')" by (metis surj_pair)
  from Cons.prems have st: "stable d (store ?w)" and cc: "counts_consistent (store ?w)" by simp_all
  note k = stable_step[OF st run]
  from k(3) have 1: "stable d (store w')" .
  from counts_consistent_subset[OF cc k(4)] have 2: "counts_consistent (store w')" .
  from k(6)[OF cc] Cons.prems(3) have 3: "status_of d (store w') = S" by simp
  from k(2) Cons.prems(4) have 4: "events w' = E" by simp
  from k(1) Cons.prems(5) have 5: "scaling_operations w' = F" by (simp add: scaling_operations_def)
  from k(5) Cons.prems(3,6) have 6: "status w' = T \<or> status w' = Some S"
    by (cases "r = None") simp_all
  from Cons.IH[OF 1 2 3 4 5 6] Cons.prems run show ?case by simp
qed

text \<open>
  C2. In a stable state (every old replica set at zero desired replicas, the new one
  present with the deployment's desired count) a pass issues no store operation that
  scales or creates a replica set and records no scaling event, whatever the store
  answers; none of its calls reports a scaling; the state it leaves is stable again, and
  the persisted status is the status of the state when the pass succeeds, untouched when
  it fails. Invoked again and again, with any scripts of store answers, the pass keeps
  the state stable, issues no scaling operation, and its status output stays the same.
  (The last part is for stored states whose counts are consistent: the cleanup deletes old
  replica sets with no observed replicas, which then have no available replicas.)
\<close>

theorem stable_state_is_fixed_point:
  assumes "stable deployment (store w)"
  shows "scaling_operations (snd (rolloutRecreate specified_controller deployment w)) =
           scaling_operations w
       \<and> events (snd (rolloutRecreate specified_controller deployment w)) = events w
       \<and> list_all (\<lambda>c. \<not> call_scaled c) (calls_of_pass specified_controller deployment w)
       \<and> stable deployment (store (snd (rolloutRecreate specified_controller deployment w)))
       \<and> status (snd (rolloutRecreate specified_controller deployment w)) =
           (if fst (rolloutRecreate specified_controller deployment w) = None
            then Some (status_of deployment (store w)) else status w)
       \<and> (counts_consistent (store w) \<longrightarrow>
            (\<forall>u \<in> set (passes deployment scripts w).
               stable deployment (store u) \<and>
               status_of deployment (store u) = status_of deployment (store w) \<and>
               scaling_operations u = scaling_operations w \<and>
               events u = events w \<and>
               (status u = status w \<or> status u = Some (status_of deployment (store w)))))"
proof -
  obtain r w' where run: "rolloutRecreate specified_controller deployment w = (r, w')"
    by (metis surj_pair)
  note k = stable_step[OF assms run]
  have c: "list_all (\<lambda>c. \<not> call_scaled c) (calls_of_pass specified_controller deployment w)"
  proof (cases "next_succeeds w")
    case True
    from stable_pass[OF assms True] show ?thesis by (elim exE conjE) simp
  next
    case False
    from failed_listing_pass(6)[OF False run] show ?thesis by (elim exE) simp
  qed
  have m: "\<forall>u \<in> set (passes deployment scripts w).
               stable deployment (store u) \<and>
               status_of deployment (store u) = status_of deployment (store w) \<and>
               scaling_operations u = scaling_operations w \<and>
               events u = events w \<and>
               (status u = status w \<or> status u = Some (status_of deployment (store w)))"
    if cc: "counts_consistent (store w)"
    using stable_passes[OF assms cc refl refl refl, of "status w" scripts] by simp
  from k(1,2,3,5) c m run show ?thesis by simp
qed


theorem stable_state_is_fixed_point_witness:
  "stable web (store (world_of [replica_set ''web-v3'' ''v3'' 5 5, replica_set ''web-v2'' ''v2'' 0 0,
                                replica_set ''web-v1'' ''v1'' 0 0] []))
   \<and> rolloutRecreate specified_controller web
        (world_of [replica_set ''web-v3'' ''v3'' 5 5, replica_set ''web-v2'' ''v2'' 0 0,
                   replica_set ''web-v1'' ''v1'' 0 0] []) =
      (None,
       \<lparr> store = [replica_set ''web-v3'' ''v3'' 5 5, replica_set ''web-v2'' ''v2'' 0 0],
         status = Some \<lparr>ObservedGeneration = 7, Replicas = 5, UpdatedReplicas = 5,
                        AvailableReplicas = 5, UnavailableReplicas = 0\<rparr>,
         events = [],
         operations = [ListOp, DeleteOp (replica_set ''web-v1'' ''v1'' 0 0), StatusWriteOp],
         faults = [] \<rparr>)
   \<and> list_all
        (\<lambda>u. stable web (store u) \<and> scaling_operations u = [] \<and> events u = [] \<and>
             status_of web (store u) =
               \<lparr>ObservedGeneration = 7, Replicas = 5, UpdatedReplicas = 5,
                AvailableReplicas = 5, UnavailableReplicas = 0\<rparr>)
        (passes web [[], [Some TransientStoreError], []]
           (world_of [replica_set ''web-v3'' ''v3'' 5 5, replica_set ''web-v2'' ''v2'' 0 0,
                      replica_set ''web-v1'' ''v1'' 0 0] []))"
proof -
  let ?w = "world_of [replica_set ''web-v3'' ''v3'' 5 5, replica_set ''web-v2'' ''v2'' 0 0,
                      replica_set ''web-v1'' ''v1'' 0 0] []"
  have st: "stable web (store ?w)"
    by (simp add: stable_def spec_defs)
  have cc: "counts_consistent (store ?w)"
    by (simp add: counts_consistent_def spec_defs)
  have so: "status_of web (store ?w) =
              \<lparr>ObservedGeneration = 7, Replicas = 5, UpdatedReplicas = 5,
               AvailableReplicas = 5, UnavailableReplicas = 0\<rparr>"
    by (simp add: status_of_def spec_defs)
  have ops: "scaling_operations ?w = []" and ev: "events ?w = []"
    by (simp_all add: scaling_operations_def spec_defs)
  have run: "rolloutRecreate specified_controller web ?w =
      (None,
       \<lparr> store = [replica_set ''web-v3'' ''v3'' 5 5, replica_set ''web-v2'' ''v2'' 0 0],
         status = Some \<lparr>ObservedGeneration = 7, Replicas = 5, UpdatedReplicas = 5,
                        AvailableReplicas = 5, UnavailableReplicas = 0\<rparr>,
         events = [],
         operations = [ListOp, DeleteOp (replica_set ''web-v1'' ''v1'' 0 0), StatusWriteOp],
         faults = [] \<rparr>)"
    by (simp add: spec_defs)
  from stable_state_is_fixed_point[OF st, of "[[], [Some TransientStoreError], []]"] cc so ops ev
  have "list_all
        (\<lambda>u. stable web (store u) \<and> scaling_operations u = [] \<and> events u = [] \<and>
             status_of web (store u) =
               \<lparr>ObservedGeneration = 7, Replicas = 5, UpdatedReplicas = 5,
                AvailableReplicas = 5, UnavailableReplicas = 0\<rparr>)
        (passes web [[], [Some TransientStoreError], []] ?w)"
    by (simp add: list_all_iff)
  with st run show ?thesis by simp
qed

section \<open>Cleanup in the steady state\<close>

text \<open>
  C7. For every controller: the pass calls \<open>cleanupDeployment\<close> exactly when no scaling
  call of the pass reported that it scaled and no resolution or scaling call failed. A
  pass in which neither phase produced a change reaches the cleanup unless one of these
  calls failed: a failing call ends the pass before the cleanup. When the pass calls the
  cleanup, its calls end with the scale-up call that found nothing to do, the cleanup,
  and \<open>syncDeploymentStatus\<close>, whose result the pass returns. In particular, on the store
  of the specification: from a stable state whose listing succeeds, the calls of the pass
  are the resolution, a scale-up call that does nothing, the cleanup and the status sync,
  and the pass issues no scaling store operation and records no scaling event.
\<close>

theorem cleanup_iff_no_change:
  "((\<exists>c \<in> set (calls_of_pass dc deployment s). is_Cleanup c) \<longleftrightarrow>
      (\<forall>c \<in> set (calls_of_pass dc deployment s). \<not> call_scaled c \<and> \<not> phase_failed c))
   \<and> ((\<exists>c \<in> set (calls_of_pass dc deployment s). is_Cleanup c) \<longrightarrow>
        (\<exists>before newRS oldRSs cerr.
           calls_of_pass dc deployment s =
             before @
             [ScaleReplicaSet newRS (Deployment_Replicas deployment) False None,
              Cleanup oldRSs cerr,
              SyncStatus (map Some oldRSs @ [newRS]) newRS
                (fst (rolloutRecreate dc deployment s))]))
   \<and> (stable deployment (store w) \<and> next_succeeds w \<longrightarrow>
        (\<exists>new cerr.
           calls_of_pass specified_controller deployment w =
             [GetAllReplicaSets False (Some new) (FindOldReplicaSets deployment (store w)) None,
              ScaleReplicaSet (Some new) (Deployment_Replicas deployment) False None,
              Cleanup (FindOldReplicaSets deployment (store w)) cerr,
              SyncStatus (map Some (FindOldReplicaSets deployment (store w)) @ [Some new])
                (Some new) (fst (rolloutRecreate specified_controller deployment w))])
        \<and> scaling_operations (snd (rolloutRecreate specified_controller deployment w)) =
            scaling_operations w
        \<and> events (snd (rolloutRecreate specified_controller deployment w)) = events w)"
proof (intro conjI impI)
  show "(\<exists>c \<in> set (calls_of_pass dc deployment s). is_Cleanup c) \<longleftrightarrow>
      (\<forall>c \<in> set (calls_of_pass dc deployment s). \<not> call_scaled c \<and> \<not> phase_failed c)"
    by (simp only: calls_of_pass_eq pass_cleanup_iff)
next
  assume "\<exists>c \<in> set (calls_of_pass dc deployment s). is_Cleanup c"
  then have "\<exists>c \<in> set (pass_calls dc deployment s). is_Cleanup c"
    by (simp only: calls_of_pass_eq)
  from pass_reaching_cleanup[OF this]
  show "\<exists>before newRS oldRSs cerr.
           calls_of_pass dc deployment s =
             before @
             [ScaleReplicaSet newRS (Deployment_Replicas deployment) False None,
              Cleanup oldRSs cerr,
              SyncStatus (map Some oldRSs @ [newRS]) newRS
                (fst (rolloutRecreate dc deployment s))]"
    by (simp only: calls_of_pass_eq)
next
  assume a: "stable deployment (store w) \<and> next_succeeds w"
  then have st: "stable deployment (store w)" and ok: "next_succeeds w" by simp_all
  from stable_pass[OF st ok]
  show "\<exists>new cerr.
           calls_of_pass specified_controller deployment w =
             [GetAllReplicaSets False (Some new) (FindOldReplicaSets deployment (store w)) None,
              ScaleReplicaSet (Some new) (Deployment_Replicas deployment) False None,
              Cleanup (FindOldReplicaSets deployment (store w)) cerr,
              SyncStatus (map Some (FindOldReplicaSets deployment (store w)) @ [Some new])
                (Some new) (fst (rolloutRecreate specified_controller deployment w))]"
    by (elim exE conjE) (intro exI)
  obtain r w' where run: "rolloutRecreate specified_controller deployment w = (r, w')"
    by (metis surj_pair)
  from stable_step(1,2)[OF st run] run
  show "scaling_operations (snd (rolloutRecreate specified_controller deployment w)) =
            scaling_operations w"
    and "events (snd (rolloutRecreate specified_controller deployment w)) = events w"
    by simp_all
qed

theorem cleanup_iff_no_change_witness:
  "list_ex is_Cleanup
     (calls_of_pass specified_controller web
        (world_of [replica_set ''web-v3'' ''v3'' 5 5, replica_set ''web-v2'' ''v2'' 0 0] []))
   \<and> list_all (\<lambda>c. \<not> call_scaled c \<and> \<not> phase_failed c)
     (calls_of_pass specified_controller web
        (world_of [replica_set ''web-v3'' ''v3'' 5 5, replica_set ''web-v2'' ''v2'' 0 0] []))
   \<and> scaling_operations (snd (rolloutRecreate specified_controller web
        (world_of [replica_set ''web-v3'' ''v3'' 5 5, replica_set ''web-v2'' ''v2'' 0 0] []))) = []"
proof -
  let ?w = "world_of [replica_set ''web-v3'' ''v3'' 5 5, replica_set ''web-v2'' ''v2'' 0 0] []"
  have st: "stable web (store ?w)"
    by (simp add: stable_def spec_defs)
  have ok: "next_succeeds ?w"
    by (simp add: next_succeeds_def spec_defs)
  have ops: "scaling_operations ?w = []"
    by (simp add: scaling_operations_def spec_defs)
  note t = cleanup_iff_no_change[of specified_controller web ?w ?w]
  from t st ok have c: "\<exists>c \<in> set (calls_of_pass specified_controller web ?w). is_Cleanup c"
    by (elim conjE) auto
  with t have n: "\<forall>c \<in> set (calls_of_pass specified_controller web ?w).
                    \<not> call_scaled c \<and> \<not> phase_failed c"
    by blast
  from t st ok ops have "scaling_operations (snd (rolloutRecreate specified_controller web ?w)) = []"
    by simp
  with c n show ?thesis by (simp add: list_ex_iff list_all_iff)
qed

text \<open>
  A pass in which neither phase produced a change need not reach the cleanup. In the
  first pass below the state is stable and the listing fails: the pass returns the error
  after its first call (lines 28 to 30). In the second pass no old replica set is left to
  scale down and the conditional update of the scale-up meets a conflict: the pass
  returns the conflict (lines 55 to 57). Both passes leave the store as it was, and
  neither calls the cleanup nor writes status.
\<close>

theorem failed_pass_skips_cleanup:
  "calls_of_pass specified_controller web
     (world_of [replica_set ''web-v3'' ''v3'' 5 5, replica_set ''web-v2'' ''v2'' 0 0]
        [Some TransientStoreError]) =
     [GetAllReplicaSets False None [] (Some TransientStoreError)]
   \<and> rolloutRecreate specified_controller web
     (world_of [replica_set ''web-v3'' ''v3'' 5 5, replica_set ''web-v2'' ''v2'' 0 0]
        [Some TransientStoreError]) =
     (Some TransientStoreError,
      \<lparr> store = [replica_set ''web-v3'' ''v3'' 5 5, replica_set ''web-v2'' ''v2'' 0 0],
        status = None, events = [], operations = [ListOp], faults = [] \<rparr>)
   \<and> calls_of_pass specified_controller web
     (world_of [replica_set ''web-v3'' ''v3'' 2 2, replica_set ''web-v2'' ''v2'' 0 0]
        [None, Some ConflictError]) =
     [GetAllReplicaSets False (Some (replica_set ''web-v3'' ''v3'' 2 2))
        [replica_set ''web-v2'' ''v2'' 0 0] None,
      ScaleReplicaSet (Some (replica_set ''web-v3'' ''v3'' 2 2)) 5 False (Some ConflictError)]
   \<and> rolloutRecreate specified_controller web
     (world_of [replica_set ''web-v3'' ''v3'' 2 2, replica_set ''web-v2'' ''v2'' 0 0]
        [None, Some ConflictError]) =
     (Some ConflictError,
      \<lparr> store = [replica_set ''web-v3'' ''v3'' 2 2, replica_set ''web-v2'' ''v2'' 0 0],
        status = None, events = [],
        operations = [ListOp, ConditionalUpdateOp (replica_set ''web-v3'' ''v3'' 2 2) 5],
        faults = [] \<rparr>)"
  by (simp add: spec_defs calls_of_pass_eq pass_calls_def scaleUp_calls_def)

section \<open>The error of the cleanup\<close>

lemma loop_without_cleanup:
  "scaleDownOldReplicaSetsForRecreate_loop (dc\<lparr>cleanupDeployment := c\<rparr>) olds d acc s =
   scaleDownOldReplicaSetsForRecreate_loop dc olds d acc s"
  by (induction olds arbitrary: acc s) (simp_all add: case_prod_beta cong: option.case_cong if_cong)

text \<open>
  C8. For every controller: replace the error that \<open>cleanupDeployment\<close> returns by any
  other (\<open>f\<close> gives it), leaving what the cleanup does to the state: the pass returns the
  same error and the same state. So the error of a pass does not depend on the error of
  the cleanup. And a pass that reaches the cleanup goes on to \<open>syncDeploymentStatus\<close>,
  its last call, and returns the result of that call.
\<close>

theorem cleanup_error_is_discarded:
  "rolloutRecreate
     (dc\<lparr>cleanupDeployment :=
           \<lambda>oldRSs d s. (f oldRSs d s, snd (cleanupDeployment dc oldRSs d s))\<rparr>)
     deployment s =
   rolloutRecreate dc deployment s
   \<and> ((\<exists>c \<in> set (calls_of_pass dc deployment s). is_Cleanup c) \<longrightarrow>
        (\<exists>before oldRSs cerr allRSs newRS.
           calls_of_pass dc deployment s =
             before @
             [Cleanup oldRSs cerr,
              SyncStatus allRSs newRS (fst (rolloutRecreate dc deployment s))]))"
proof (intro conjI impI)
  show "rolloutRecreate
     (dc\<lparr>cleanupDeployment :=
           \<lambda>oldRSs d s. (f oldRSs d s, snd (cleanupDeployment dc oldRSs d s))\<rparr>)
     deployment s =
   rolloutRecreate dc deployment s"
    by (simp add: rolloutRecreate_def rolloutRecreate_scaleUp_def
        scaleUpNewReplicaSetForRecreate_def scaleDownOldReplicaSetsForRecreate_def
        loop_without_cleanup case_prod_beta cong: option.case_cong if_cong)
next
  assume "\<exists>c \<in> set (calls_of_pass dc deployment s). is_Cleanup c"
  then have "\<exists>c \<in> set (pass_calls dc deployment s). is_Cleanup c"
    by (simp only: calls_of_pass_eq)
  from pass_reaching_cleanup[OF this] obtain before newRS oldRSs cerr where
    "pass_calls dc deployment s =
       before @ [ScaleReplicaSet newRS (Deployment_Replicas deployment) False None,
                 Cleanup oldRSs cerr,
                 SyncStatus (map Some oldRSs @ [newRS]) newRS (fst (rolloutRecreate dc deployment s))]"
    by blast
  then have "calls_of_pass dc deployment s =
       (before @ [ScaleReplicaSet newRS (Deployment_Replicas deployment) False None]) @
       [Cleanup oldRSs cerr,
        SyncStatus (map Some oldRSs @ [newRS]) newRS (fst (rolloutRecreate dc deployment s))]"
    by (simp add: calls_of_pass_eq)
  then show "\<exists>before oldRSs cerr allRSs newRS.
           calls_of_pass dc deployment s =
             before @
             [Cleanup oldRSs cerr,
              SyncStatus allRSs newRS (fst (rolloutRecreate dc deployment s))]"
    by blast
qed

theorem cleanup_error_is_discarded_witness:
  "spec_cleanupDeployment
     [replica_set ''web-v2'' ''v2'' 0 0, replica_set ''web-v1'' ''v1'' 0 0] web
     (world_of [replica_set ''web-v3'' ''v3'' 5 5, replica_set ''web-v2'' ''v2'' 0 0,
                replica_set ''web-v1'' ''v1'' 0 0] [Some TransientStoreError]) =
     (Some TransientStoreError,
      \<lparr> store = [replica_set ''web-v3'' ''v3'' 5 5, replica_set ''web-v2'' ''v2'' 0 0,
                  replica_set ''web-v1'' ''v1'' 0 0],
        status = None, events = [],
        operations = [DeleteOp (replica_set ''web-v1'' ''v1'' 0 0)], faults = [] \<rparr>)
   \<and> rolloutRecreate specified_controller web
       (world_of [replica_set ''web-v3'' ''v3'' 5 5, replica_set ''web-v2'' ''v2'' 0 0,
                  replica_set ''web-v1'' ''v1'' 0 0] [None, Some TransientStoreError]) =
     (None,
      \<lparr> store = [replica_set ''web-v3'' ''v3'' 5 5, replica_set ''web-v2'' ''v2'' 0 0,
                  replica_set ''web-v1'' ''v1'' 0 0],
        status = Some \<lparr>ObservedGeneration = 7, Replicas = 5, UpdatedReplicas = 5,
                       AvailableReplicas = 5, UnavailableReplicas = 0\<rparr>,
        events = [],
        operations = [ListOp, DeleteOp (replica_set ''web-v1'' ''v1'' 0 0), StatusWriteOp],
        faults = [] \<rparr>)
   \<and> rolloutRecreate
       (specified_controller\<lparr>cleanupDeployment :=
          \<lambda>oldRSs d s. (None, snd (cleanupDeployment specified_controller oldRSs d s))\<rparr>) web
       (world_of [replica_set ''web-v3'' ''v3'' 5 5, replica_set ''web-v2'' ''v2'' 0 0,
                  replica_set ''web-v1'' ''v1'' 0 0] [None, Some TransientStoreError]) =
     rolloutRecreate specified_controller web
       (world_of [replica_set ''web-v3'' ''v3'' 5 5, replica_set ''web-v2'' ''v2'' 0 0,
                  replica_set ''web-v1'' ''v1'' 0 0] [None, Some TransientStoreError])"
proof -
  let ?w = "world_of [replica_set ''web-v3'' ''v3'' 5 5, replica_set ''web-v2'' ''v2'' 0 0,
                      replica_set ''web-v1'' ''v1'' 0 0] [None, Some TransientStoreError]"
  have a: "spec_cleanupDeployment
     [replica_set ''web-v2'' ''v2'' 0 0, replica_set ''web-v1'' ''v1'' 0 0] web
     (world_of [replica_set ''web-v3'' ''v3'' 5 5, replica_set ''web-v2'' ''v2'' 0 0,
                replica_set ''web-v1'' ''v1'' 0 0] [Some TransientStoreError]) =
     (Some TransientStoreError,
      \<lparr> store = [replica_set ''web-v3'' ''v3'' 5 5, replica_set ''web-v2'' ''v2'' 0 0,
                  replica_set ''web-v1'' ''v1'' 0 0],
        status = None, events = [],
        operations = [DeleteOp (replica_set ''web-v1'' ''v1'' 0 0)], faults = [] \<rparr>)"
    by (simp add: spec_defs)
  have b: "rolloutRecreate specified_controller web ?w =
     (None,
      \<lparr> store = [replica_set ''web-v3'' ''v3'' 5 5, replica_set ''web-v2'' ''v2'' 0 0,
                  replica_set ''web-v1'' ''v1'' 0 0],
        status = Some \<lparr>ObservedGeneration = 7, Replicas = 5, UpdatedReplicas = 5,
                       AvailableReplicas = 5, UnavailableReplicas = 0\<rparr>,
        events = [],
        operations = [ListOp, DeleteOp (replica_set ''web-v1'' ''v1'' 0 0), StatusWriteOp],
        faults = [] \<rparr>)"
    by (simp add: spec_defs)
  from cleanup_error_is_discarded[where dc = specified_controller and f = "\<lambda>oldRSs d s. None"
      and deployment = web and s = ?w]
  have c: "rolloutRecreate
       (specified_controller\<lparr>cleanupDeployment :=
          \<lambda>oldRSs d s. (None, snd (cleanupDeployment specified_controller oldRSs d s))\<rparr>) web ?w =
     rolloutRecreate specified_controller web ?w"
    by (rule conjunct1)
  from a b c show ?thesis by (intro conjI)
qed

section \<open>Scaling at the target count\<close>

lemma scale_at_target_repeated:
  "Spec_Replicas rs = k \<Longrightarrow>
     ((\<lambda>u. snd (spec_scaleReplicaSetAndRecordEvent (Some rs) k d u)) ^^ n) w = w"
  by (induction n) (simp_all add: scale_at_target)

text \<open>
  C5. The Scaling Executor of the specification, called for a replica set whose desired
  count is the target count, returns \<open>didScale = false\<close> and the state it was given,
  unchanged: no store operation, no event; called any number of times it still returns
  that state. So the scale-up of a replica set already at the deployment's count
  reports no scaling. In the source, for every controller: the scale-down calls the
  executor only for replica sets whose desired count is not zero, and when all the old
  replica sets are at zero it calls nothing, changes nothing and reports no scaling.
\<close>

theorem scaling_at_target_is_noop:
  "(Spec_Replicas rs = targetCount \<longrightarrow>
      spec_scaleReplicaSetAndRecordEvent (Some rs) targetCount deployment w =
        ((False, Some rs, None), w)
      \<and> ((\<lambda>u. snd (spec_scaleReplicaSetAndRecordEvent (Some rs) targetCount deployment u)) ^^ n) w
          = w)
   \<and> (Spec_Replicas rs = Deployment_Replicas deployment \<longrightarrow>
        scaleUpNewReplicaSetForRecreate specified_controller (Some rs) deployment w =
          ((False, None), w))
   \<and> (\<forall>c \<in> set (calls_of_scaleDown dc oldRSs deployment s).
        \<exists>old \<in> set oldRSs. Spec_Replicas old \<noteq> 0 \<and>
          (\<exists>scaled err. c = ScaleReplicaSet (Some old) 0 scaled err))
   \<and> ((\<forall>old \<in> set oldRSs. Spec_Replicas old = 0) \<longrightarrow>
        scaleDownOldReplicaSetsForRecreate dc oldRSs deployment s = ((False, None), s) \<and>
        calls_of_scaleDown dc oldRSs deployment s = [])"
proof (intro conjI impI ballI)
  assume a: "Spec_Replicas rs = targetCount"
  from a show "spec_scaleReplicaSetAndRecordEvent (Some rs) targetCount deployment w =
        ((False, Some rs, None), w)"
    by (rule scale_at_target)
  from a show "((\<lambda>u. snd (spec_scaleReplicaSetAndRecordEvent (Some rs) targetCount deployment u)) ^^ n) w
          = w"
    by (rule scale_at_target_repeated)
next
  assume "Spec_Replicas rs = Deployment_Replicas deployment"
  then show "scaleUpNewReplicaSetForRecreate specified_controller (Some rs) deployment w =
          ((False, None), w)"
    by (simp add: scaleUpNewReplicaSetForRecreate_def scale_at_target)
next
  fix c assume "c \<in> set (calls_of_scaleDown dc oldRSs deployment s)"
  then have "c \<in> set (scaleDown_calls dc oldRSs deployment s)"
    by (simp only: calls_of_scaleDown_eq)
  from scaleDown_calls_are_scaling[OF this]
  show "\<exists>old \<in> set oldRSs. Spec_Replicas old \<noteq> 0 \<and>
          (\<exists>scaled err. c = ScaleReplicaSet (Some old) 0 scaled err)"
    by blast
next
  assume z: "\<forall>old \<in> set oldRSs. Spec_Replicas old = 0"
  from scaleDown_all_zero[OF z, of dc deployment s]
  show "scaleDownOldReplicaSetsForRecreate dc oldRSs deployment s = ((False, None), s)"
    and "calls_of_scaleDown dc oldRSs deployment s = []"
    by simp_all
qed

theorem scaling_at_target_is_noop_witness:
  "spec_scaleReplicaSetAndRecordEvent (Some (replica_set ''web-v3'' ''v3'' 5 5)) 5 web
     (world_of [replica_set ''web-v3'' ''v3'' 5 5, replica_set ''web-v2'' ''v2'' 0 3] []) =
     ((False, Some (replica_set ''web-v3'' ''v3'' 5 5), None),
      world_of [replica_set ''web-v3'' ''v3'' 5 5, replica_set ''web-v2'' ''v2'' 0 3] [])
   \<and> scaleDownOldReplicaSetsForRecreate specified_controller
       [replica_set ''web-v2'' ''v2'' 0 3] web
       (world_of [replica_set ''web-v3'' ''v3'' 5 5, replica_set ''web-v2'' ''v2'' 0 3] []) =
     ((False, None),
      world_of [replica_set ''web-v3'' ''v3'' 5 5, replica_set ''web-v2'' ''v2'' 0 3] [])"
proof -
  let ?n = "replica_set ''web-v3'' ''v3'' 5 5"
  let ?o = "replica_set ''web-v2'' ''v2'' 0 3"
  let ?w = "world_of [?n, ?o] []"
  have h1: "Spec_Replicas ?n = 5" by (simp add: replica_set_def)
  have h2: "\<forall>old \<in> set [?o]. Spec_Replicas old = 0" by (simp add: replica_set_def)
  note t = scaling_at_target_is_noop[where rs = ?n and targetCount = 5 and deployment = web
      and w = ?w and dc = specified_controller and oldRSs = "[?o]" and s = ?w]
  from t h1 have "spec_scaleReplicaSetAndRecordEvent (Some ?n) 5 web ?w = ((False, Some ?n, None), ?w)"
    by blast
  moreover from t h2 have "scaleDownOldReplicaSetsForRecreate specified_controller [?o] web ?w =
     ((False, None), ?w)"
    by blast
  ultimately show ?thesis by (intro conjI)
qed

section \<open>Convergence in two passes\<close>

lemmas pass_defs = specified_controller_def spec_getAllReplicaSetsAndSyncRevision_def
  spec_scaleReplicaSetAndRecordEvent_def computeAndPersist_def spec_cleanupDeployment_def
  store_call_def FilterActiveReplicaSets_def
  scaleDownOldReplicaSetsForRecreate_def scaleUpNewReplicaSetForRecreate_def
  rolloutRecreate_def rolloutRecreate_scaleUp_def
  calls_of_pass_eq pass_calls_def scaleUp_calls_def

lemma first_pass:
  assumes "TemplateHash old \<noteq> Template d" and "Spec_Replicas old = n" and "0 < n"
      and "store w = [old]" and "faults w = []"
  shows "rolloutRecreate specified_controller d w =
           (None, w\<lparr>store := [old\<lparr>Spec_Replicas := 0\<rparr>],
                   status := Some (calculateStatus [Some old, None] None d),
                   events := events w @
                     [\<lparr>subject = Name old, scaling = ScaledDown, fromCount = n, toCount = 0\<rparr>],
                   operations := operations w @
                     [ListOp, ConditionalUpdateOp old 0, StatusWriteOp]\<rparr>)"
    and "calls_of_pass specified_controller d w =
           [GetAllReplicaSets False None [old] None,
            ScaleReplicaSet (Some old) 0 True None,
            UpdateStatus [Some old, None] None None]"
  using assms by (simp_all add: pass_defs)

lemma second_pass:
  assumes "TemplateHash old \<noteq> Template d" and "Spec_Replicas old = 0"
      and "Deployment_Replicas d = n" and "0 < n"
      and "store w = [old]" and "faults w = []"
  shows "rolloutRecreate specified_controller d w =
           (None, w\<lparr>store := [(newReplicaSetFor d)\<lparr>Spec_Replicas := n\<rparr>, old],
                   status := Some (calculateStatus
                                     [Some old, Some (newReplicaSetFor d)]
                                     (Some (newReplicaSetFor d)) d),
                   events := events w @
                     [\<lparr>subject = Name (newReplicaSetFor d), scaling = ScaledUp,
                       fromCount = 0, toCount = n\<rparr>],
                   operations := operations w @
                     [ListOp, ListOp, CreateOp (newReplicaSetFor d),
                      ConditionalUpdateOp (newReplicaSetFor d) n, StatusWriteOp]\<rparr>)"
    and "calls_of_pass specified_controller d w =
           [GetAllReplicaSets False None [old] None,
            GetAllReplicaSets True (Some (newReplicaSetFor d)) [old] None,
            ScaleReplicaSet (Some (newReplicaSetFor d)) n True None,
            UpdateStatus [Some old, Some (newReplicaSetFor d)] (Some (newReplicaSetFor d)) None]"
  using assms by (simp_all add: pass_defs newReplicaSetFor_def)

lemma third_pass:
  assumes "TemplateHash old \<noteq> Template d" and "Spec_Replicas old = 0"
      and "0 < Status_Replicas old"
      and "TemplateHash new = Template d" and "Spec_Replicas new = Deployment_Replicas d"
      and "store w = [new, old]" and "faults w = []"
  shows "rolloutRecreate specified_controller d w =
           (None, w\<lparr>status := Some (calculateStatus [Some old, Some new] (Some new) d),
                   operations := operations w @ [ListOp, StatusWriteOp]\<rparr>)"
    and "calls_of_pass specified_controller d w =
           [GetAllReplicaSets False (Some new) [old] None,
            ScaleReplicaSet (Some new) (Deployment_Replicas d) False None,
            Cleanup [old] None,
            SyncStatus [Some old, Some new] (Some new) None]"
  using assms by (simp_all add: pass_defs drop_Cons')

text \<open>
  C3. Start from one old replica set with \<open>n\<close> desired and \<open>n\<close> observed replicas,
  \<open>n\<close> above zero (the claim has \<open>n = 5\<close>), no replica set for the current template, a
  deployment that wants \<open>n\<close> replicas, and a store that does not fail. The states
  observed between three passes are: the start; the old replica set at zero; the new
  replica set at \<open>n\<close> with the old one at zero; the same again. The first pass issues the
  scale-down and no creation or scale-up; the second the creation and the scale-up and
  no scale-down; the third neither.
\<close>

theorem recreate_converges_in_two_passes:
  assumes "TemplateHash old \<noteq> Template deployment"
      and "Spec_Replicas old = n" and "Status_Replicas old = n" and "0 < n"
      and "Deployment_Replicas deployment = n"
      and "store w = [old]" and "faults w = []"
  shows "map store (passes deployment [[], [], []] w) =
           [[old],
            [old\<lparr>Spec_Replicas := 0\<rparr>],
            [(newReplicaSetFor deployment)\<lparr>Spec_Replicas := n\<rparr>, old\<lparr>Spec_Replicas := 0\<rparr>],
            [(newReplicaSetFor deployment)\<lparr>Spec_Replicas := n\<rparr>, old\<lparr>Spec_Replicas := 0\<rparr>]]
       \<and> map operations (passes deployment [[], [], []] w) =
           [operations w,
            operations w @ [ListOp, ConditionalUpdateOp old 0, StatusWriteOp],
            operations w @ [ListOp, ConditionalUpdateOp old 0, StatusWriteOp] @
              [ListOp, ListOp, CreateOp (newReplicaSetFor deployment),
               ConditionalUpdateOp (newReplicaSetFor deployment) n, StatusWriteOp],
            operations w @ [ListOp, ConditionalUpdateOp old 0, StatusWriteOp] @
              [ListOp, ListOp, CreateOp (newReplicaSetFor deployment),
               ConditionalUpdateOp (newReplicaSetFor deployment) n, StatusWriteOp] @
              [ListOp, StatusWriteOp]]
       \<and> calls_of_pass specified_controller deployment (passes deployment [[], [], []] w ! 0) =
           [GetAllReplicaSets False None [old] None,
            ScaleReplicaSet (Some old) 0 True None,
            UpdateStatus [Some old, None] None None]
       \<and> calls_of_pass specified_controller deployment (passes deployment [[], [], []] w ! 1) =
           [GetAllReplicaSets False None [old\<lparr>Spec_Replicas := 0\<rparr>] None,
            GetAllReplicaSets True (Some (newReplicaSetFor deployment))
              [old\<lparr>Spec_Replicas := 0\<rparr>] None,
            ScaleReplicaSet (Some (newReplicaSetFor deployment)) n True None,
            UpdateStatus [Some (old\<lparr>Spec_Replicas := 0\<rparr>), Some (newReplicaSetFor deployment)]
              (Some (newReplicaSetFor deployment)) None]
       \<and> calls_of_pass specified_controller deployment (passes deployment [[], [], []] w ! 2) =
           [GetAllReplicaSets False (Some ((newReplicaSetFor deployment)\<lparr>Spec_Replicas := n\<rparr>))
              [old\<lparr>Spec_Replicas := 0\<rparr>] None,
            ScaleReplicaSet (Some ((newReplicaSetFor deployment)\<lparr>Spec_Replicas := n\<rparr>)) n
              False None,
            Cleanup [old\<lparr>Spec_Replicas := 0\<rparr>] None,
            SyncStatus [Some (old\<lparr>Spec_Replicas := 0\<rparr>),
                        Some ((newReplicaSetFor deployment)\<lparr>Spec_Replicas := n\<rparr>)]
              (Some ((newReplicaSetFor deployment)\<lparr>Spec_Replicas := n\<rparr>)) None]"
proof -
  let ?old0 = "old\<lparr>Spec_Replicas := 0\<rparr>"
  let ?new = "newReplicaSetFor deployment"
  let ?newn = "?new\<lparr>Spec_Replicas := n\<rparr>"
  from assms(7) have w0: "w\<lparr>faults := []\<rparr> = w" by (cases w) simp
  define w1 where "w1 = snd (rolloutRecreate specified_controller deployment w)"
  note p1 = first_pass(1)[OF assms(1,2,4,6,7)]
  have r1: "rolloutRecreate specified_controller deployment w = (None, w1)"
    and s1: "store w1 = [?old0]" and f1: "faults w1 = []"
    and o1: "operations w1 = operations w @ [ListOp, ConditionalUpdateOp old 0, StatusWriteOp]"
    using assms(7) by (simp_all add: w1_def p1)
  have c1: "calls_of_pass specified_controller deployment w =
           [GetAllReplicaSets False None [old] None,
            ScaleReplicaSet (Some old) 0 True None,
            UpdateStatus [Some old, None] None None]"
    by (rule first_pass(2)[OF assms(1,2,4,6,7)])
  from f1 have w1: "w1\<lparr>faults := []\<rparr> = w1" by (cases w1) simp
  have h0: "TemplateHash ?old0 \<noteq> Template deployment" "Spec_Replicas ?old0 = 0"
    "0 < Status_Replicas ?old0"
    using assms(1,3,4) by simp_all
  define w2 where "w2 = snd (rolloutRecreate specified_controller deployment w1)"
  note p2 = second_pass(1)[OF h0(1,2) assms(5,4) s1 f1]
  have r2: "rolloutRecreate specified_controller deployment w1 = (None, w2)"
    and s2: "store w2 = [?newn, ?old0]" and f2: "faults w2 = []"
    and o2: "operations w2 = operations w1 @
              [ListOp, ListOp, CreateOp ?new, ConditionalUpdateOp ?new n, StatusWriteOp]"
    using f1 by (simp_all add: w2_def p2)
  have c2: "calls_of_pass specified_controller deployment w1 =
           [GetAllReplicaSets False None [?old0] None,
            GetAllReplicaSets True (Some ?new) [?old0] None,
            ScaleReplicaSet (Some ?new) n True None,
            UpdateStatus [Some ?old0, Some ?new] (Some ?new) None]"
    by (rule second_pass(2)[OF h0(1,2) assms(5,4) s1 f1])
  from f2 have w2: "w2\<lparr>faults := []\<rparr> = w2" by (cases w2) simp
  have hn: "TemplateHash ?newn = Template deployment"
    "Spec_Replicas ?newn = Deployment_Replicas deployment"
    using assms(5) by (simp_all add: newReplicaSetFor_def)
  define w3 where "w3 = snd (rolloutRecreate specified_controller deployment w2)"
  note p3 = third_pass(1)[OF h0 hn s2 f2]
  have r3: "rolloutRecreate specified_controller deployment w2 = (None, w3)"
    and s3: "store w3 = [?newn, ?old0]"
    and o3: "operations w3 = operations w2 @ [ListOp, StatusWriteOp]"
    using s2 by (simp_all add: w3_def p3)
  have c3: "calls_of_pass specified_controller deployment w2 =
           [GetAllReplicaSets False (Some ?newn) [?old0] None,
            ScaleReplicaSet (Some ?newn) n False None,
            Cleanup [?old0] None,
            SyncStatus [Some ?old0, Some ?newn] (Some ?newn) None]"
    using third_pass(2)[OF h0 hn s2 f2] assms(5) by simp
  have p: "passes deployment [[], [], []] w = [w, w1, w2, w3]"
    by (simp add: w0 r1 w1 r2 w2 r3)
  show ?thesis
    unfolding p by (simp add: assms(6) s1 s2 s3 o1 o2 o3 c1 c2 c3)
qed

theorem recreate_converges_in_two_passes_witness:
  "map (map Spec_Replicas \<circ> store)
     (passes web [[], [], []] (world_of [replica_set ''web-v2'' ''v2'' 5 5] [])) =
     [[5], [0], [5, 0], [5, 0]]
   \<and> map (map Name \<circ> store)
     (passes web [[], [], []] (world_of [replica_set ''web-v2'' ''v2'' 5 5] [])) =
     [[''web-v2''], [''web-v2''], [''web-v3'', ''web-v2''], [''web-v3'', ''web-v2'']]"
proof -
  let ?old = "replica_set ''web-v2'' ''v2'' 5 5"
  let ?w = "world_of [?old] []"
  have h: "TemplateHash ?old \<noteq> Template web" "Spec_Replicas ?old = 5" "Status_Replicas ?old = 5"
    "(0::int) < 5" "Deployment_Replicas web = 5" "store ?w = [?old]" "faults ?w = []"
    by (simp_all add: replica_set_def web_def world_of_def)
  from recreate_converges_in_two_passes[OF h]
  have "map store (passes web [[], [], []] ?w) =
           [[?old],
            [?old\<lparr>Spec_Replicas := 0\<rparr>],
            [(newReplicaSetFor web)\<lparr>Spec_Replicas := 5\<rparr>, ?old\<lparr>Spec_Replicas := 0\<rparr>],
            [(newReplicaSetFor web)\<lparr>Spec_Replicas := 5\<rparr>, ?old\<lparr>Spec_Replicas := 0\<rparr>]]"
    by (rule conjunct1)
  then have "map (map Spec_Replicas \<circ> store) (passes web [[], [], []] ?w) = [[5], [0], [5, 0], [5, 0]]"
    and "map (map Name \<circ> store) (passes web [[], [], []] ?w) =
     [[''web-v2''], [''web-v2''], [''web-v3'', ''web-v2''], [''web-v3'', ''web-v2'']]"
    by (simp_all add: replica_set_def newReplicaSetFor_def web_def map_eq_Cons_conv)
  then show ?thesis by (intro conjI)
qed

section \<open>Deferred creation\<close>

lemma scaleUp_calls_not_creating:
  "c \<in> set (scaleUp_calls dc d newRS oldRSs allRSs s) \<Longrightarrow> \<not> is_creating c"
  by (auto simp: scaleUp_calls_def case_prod_beta split: option.splits if_splits)

lemma scaleUp_calls_head:
  "\<exists>scaledUp e rest. scaleUp_calls dc d newRS oldRSs allRSs s =
     ScaleReplicaSet newRS (Deployment_Replicas d) scaledUp e # rest"
  by (simp add: scaleUp_calls_def case_prod_beta)

lemma pass_calls_head:
  "\<exists>newRS oldRSs e rest. pass_calls dc d s = GetAllReplicaSets False newRS oldRSs e # rest"
  by (simp add: pass_calls_def case_prod_beta)

lemma pass_creating_iff:
  "(\<exists>c \<in> set (pass_calls dc d s). is_creating c) \<longleftrightarrow>
   (\<exists>oldRSs s1 s2.
      getAllReplicaSetsAndSyncRevision dc d False s = ((None, oldRSs, None), s1) \<and>
      scaleDownOldReplicaSetsForRecreate dc (FilterActiveReplicaSets oldRSs) d s1 =
        ((False, None), s2))"
proof (cases rule: pass_cases[of dc d s])
  case (first_resolution_failed newRS oldRSs e s1)
  then show ?thesis by simp
next
  case (scale_down_failed newRS oldRSs s1 b e s2)
  with scaleDown_calls_kind[of _ dc _ d s1] show ?thesis by auto
next
  case (scaled_down newRS oldRSs s1 s2)
  with scaleDown_calls_kind[of _ dc _ d s1] show ?thesis by auto
next
  case (second_resolution_failed oldRSs s1 s2 newRS' oldRSs' e s3)
  then show ?thesis by auto
next
  case (created oldRSs s1 s2 newRS' oldRSs' s3)
  then show ?thesis by auto
next
  case (existing rs oldRSs s1 s2)
  with scaleDown_calls_kind[of _ dc _ d s1]
    scaleUp_calls_not_creating[of _ dc d "Some rs" oldRSs "map Some oldRSs @ [Some rs]" s2]
  show ?thesis by auto
qed

lemma pass_creating_calls:
  assumes g: "getAllReplicaSetsAndSyncRevision dc d False s = ((None, oldRSs, None), s1)"
      and sd: "scaleDownOldReplicaSetsForRecreate dc (FilterActiveReplicaSets oldRSs) d s1 =
                 ((False, None), s2)"
      and g2: "getAllReplicaSetsAndSyncRevision dc d True s2 = ((newRS', oldRSs', None), s3)"
  shows "\<forall>c \<in> set (calls_of_scaleDown dc (FilterActiveReplicaSets oldRSs) d s1). \<not> call_scaled c"
    and "\<exists>scaledUp e rest.
           calls_of_pass dc d s =
             GetAllReplicaSets False None oldRSs None #
             calls_of_scaleDown dc (FilterActiveReplicaSets oldRSs) d s1 @
             GetAllReplicaSets True newRS' oldRSs' None #
             ScaleReplicaSet newRS' (Deployment_Replicas d) scaledUp e # rest"
proof -
  from scaleDown_result_calls[OF sd]
  show "\<forall>c \<in> set (calls_of_scaleDown dc (FilterActiveReplicaSets oldRSs) d s1). \<not> call_scaled c"
    by (simp add: calls_of_scaleDown_eq)
  from scaleUp_calls_head[of dc d newRS' oldRSs' "map Some oldRSs' @ [newRS']" s3]
  obtain scaledUp e rest where
    "scaleUp_calls dc d newRS' oldRSs' (map Some oldRSs' @ [newRS']) s3 =
       ScaleReplicaSet newRS' (Deployment_Replicas d) scaledUp e # rest" by blast
  with g sd g2 have "calls_of_pass dc d s =
             GetAllReplicaSets False None oldRSs None #
             calls_of_scaleDown dc (FilterActiveReplicaSets oldRSs) d s1 @
             GetAllReplicaSets True newRS' oldRSs' None #
             ScaleReplicaSet newRS' (Deployment_Replicas d) scaledUp e # rest"
    by (simp add: calls_of_pass_eq pass_calls_def calls_of_scaleDown_eq)
  then show "\<exists>scaledUp e rest.
           calls_of_pass dc d s =
             GetAllReplicaSets False None oldRSs None #
             calls_of_scaleDown dc (FilterActiveReplicaSets oldRSs) d s1 @
             GetAllReplicaSets True newRS' oldRSs' None #
             ScaleReplicaSet newRS' (Deployment_Replicas d) scaledUp e # rest"
    by blast
qed

lemma store_call_creations:
  "store_call op w = (f, w1) \<Longrightarrow> \<not> is_create_op op \<Longrightarrow> creations w1 = creations w"
  by (auto simp: creations_def store_call_def split: list.splits)

lemma scale_creations:
  "spec_scaleReplicaSetAndRecordEvent rsp k d w = (r, w1) \<Longrightarrow> creations w1 = creations w"
  by (auto simp: creations_def spec_scaleReplicaSetAndRecordEvent_def store_call_def
      split: option.splits list.splits if_splits)

lemma loop_creations:
  "scaleDownOldReplicaSetsForRecreate_loop specified_controller olds d acc w = (r, w')
     \<Longrightarrow> creations w' = creations w"
proof (induction olds arbitrary: acc w)
  case Nil
  then show ?case by auto
next
  case (Cons a olds)
  show ?case
  proof (cases "Spec_Replicas a = 0")
    case True
    with Cons.prems
    have "scaleDownOldReplicaSetsForRecreate_loop specified_controller olds d acc w = (r, w')"
      by simp
    from Cons.IH[OF this] show ?thesis .
  next
    case False
    obtain sc r0 er w1 where
      sa: "spec_scaleReplicaSetAndRecordEvent (Some a) 0 d w = ((sc, r0, er), w1)"
      by (metis prod_cases3 surj_pair)
    from scale_creations[OF sa] have c1: "creations w1 = creations w" .
    show ?thesis
    proof (cases er)
      case None
      with Cons.prems False sa
      have "scaleDownOldReplicaSetsForRecreate_loop specified_controller olds d
              (if sc then True else acc) w1 = (r, w')"
        by simp
      from Cons.IH[OF this] c1 show ?thesis by simp
    next
      case (Some x)
      with Cons.prems False sa have "w' = w1" by auto
      with c1 show ?thesis by simp
    qed
  qed
qed

lemma persist_creations:
  "computeAndPersist allRSs newRS d w = (e, w1) \<Longrightarrow> creations w1 = creations w"
  using persist_result[of allRSs newRS d w e w1] by (simp add: creations_def)

lemma cleanup_creations:
  assumes "spec_cleanupDeployment olds d w = (e, w')"
  shows "creations w' = creations w"
proof -
  from assms delete_operations obtain ops where
    "operations w' = operations w @ ops" "\<forall>op \<in> set ops. \<not> is_scaling_op op \<and> \<not> is_create_op op"
    unfolding spec_cleanupDeployment_def by blast
  then show ?thesis by (simp add: creations_def)
qed

lemma scaleUp_phase_creations:
  assumes run: "rolloutRecreate_scaleUp specified_controller d newRS olds allRSs w = (r, w')"
  shows "creations w' = creations w"
proof -
  obtain b r0 e w1 where
    sc: "spec_scaleReplicaSetAndRecordEvent newRS (Deployment_Replicas d) d w = ((b, r0, e), w1)"
    by (metis prod_cases3 surj_pair)
  from scale_creations[OF sc] have c1: "creations w1 = creations w" .
  show ?thesis
  proof (cases e)
    case (Some x)
    with run sc have "w' = w1"
      by (simp add: rolloutRecreate_scaleUp_def scaleUpNewReplicaSetForRecreate_def)
    with c1 show ?thesis by simp
  next
    case None
    show ?thesis
    proof (cases b)
      case True
      with run sc None have "computeAndPersist allRSs newRS d w1 = (r, w')"
        by (simp add: rolloutRecreate_scaleUp_def scaleUpNewReplicaSetForRecreate_def)
      from persist_creations[OF this] c1 show ?thesis by simp
    next
      case False
      obtain ce w2 where cl: "spec_cleanupDeployment olds d w1 = (ce, w2)" by (metis surj_pair)
      with run sc None False have "computeAndPersist allRSs newRS d w2 = (r, w')"
        by (simp add: rolloutRecreate_scaleUp_def scaleUpNewReplicaSetForRecreate_def)
      from persist_creations[OF this] cleanup_creations[OF cl] c1 show ?thesis by simp
    qed
  qed
qed

lemma creation_needs_olds_down:
  assumes run: "rolloutRecreate specified_controller d w = (r, w')"
      and cr: "creations w' \<noteq> creations w"
  shows "FindNewReplicaSet d (store w) = None"
    and "\<not> list_ex (\<lambda>old. 0 < Spec_Replicas old) (FindOldReplicaSets d (store w))"
proof -
  have k: "FindNewReplicaSet d (store w) = None \<and>
           \<not> list_ex (\<lambda>old. 0 < Spec_Replicas old) (FindOldReplicaSets d (store w))"
  proof (cases rule: pass_cases[of specified_controller d w])
    case (first_resolution_failed newRS oldRSs e s1)
    from first_resolution_failed(1) have "spec_getAllReplicaSetsAndSyncRevision d False w =
        ((newRS, oldRSs, Some e), s1)" by simp
    from getAll_False[OF this] have "creations s1 = creations w" by (simp add: creations_def)
    with first_resolution_failed(2) run cr show ?thesis by simp
  next
    case (scale_down_failed newRS oldRSs s1 b e s2)
    from scale_down_failed(1) have "spec_getAllReplicaSetsAndSyncRevision d False w =
        ((newRS, oldRSs, None), s1)" by simp
    from getAll_False[OF this] have "creations s1 = creations w" by (simp add: creations_def)
    moreover from scale_down_failed(2) have "creations s2 = creations s1"
      by (simp add: scaleDownOldReplicaSetsForRecreate_def loop_creations)
    ultimately show ?thesis using scale_down_failed(3) run cr by simp
  next
    case (scaled_down newRS oldRSs s1 s2)
    from scaled_down(1) have "spec_getAllReplicaSetsAndSyncRevision d False w =
        ((newRS, oldRSs, None), s1)" by simp
    from getAll_False[OF this] have "creations s1 = creations w" by (simp add: creations_def)
    moreover from scaled_down(2) have "creations s2 = creations s1"
      by (simp add: scaleDownOldReplicaSetsForRecreate_def loop_creations)
    moreover from scaled_down(3) run
    have "computeAndPersist (map Some oldRSs @ [newRS]) newRS d s2 = (r, w')" by simp
    from persist_creations[OF this] have "creations w' = creations s2" .
    ultimately show ?thesis using cr by simp
  next
    case (second_resolution_failed oldRSs s1 s2 newRS' oldRSs' e s3)
    from second_resolution_failed(1) have g: "spec_getAllReplicaSetsAndSyncRevision d False w =
        ((None, oldRSs, None), s1)" by simp
    from getAll_False[OF g] have n: "FindNewReplicaSet d (store w) = None"
      and o: "oldRSs = FindOldReplicaSets d (store w)" by simp_all
    from second_resolution_failed(2)
    have "\<forall>rs \<in> set (FilterActiveReplicaSets oldRSs). Spec_Replicas rs = 0"
      using loop_unscaled by (simp add: scaleDownOldReplicaSetsForRecreate_def)
    then have "\<forall>rs \<in> set oldRSs. \<not> 0 < Spec_Replicas rs"
      by (auto simp: FilterActiveReplicaSets_def)
    with n o show ?thesis by (simp add: list_ex_iff)
  next
    case (created oldRSs s1 s2 newRS' oldRSs' s3)
    from created(1) have g: "spec_getAllReplicaSetsAndSyncRevision d False w =
        ((None, oldRSs, None), s1)" by simp
    from getAll_False[OF g] have n: "FindNewReplicaSet d (store w) = None"
      and o: "oldRSs = FindOldReplicaSets d (store w)" by simp_all
    from created(2)
    have "\<forall>rs \<in> set (FilterActiveReplicaSets oldRSs). Spec_Replicas rs = 0"
      using loop_unscaled by (simp add: scaleDownOldReplicaSetsForRecreate_def)
    then have "\<forall>rs \<in> set oldRSs. \<not> 0 < Spec_Replicas rs"
      by (auto simp: FilterActiveReplicaSets_def)
    with n o show ?thesis by (simp add: list_ex_iff)
  next
    case (existing rs oldRSs s1 s2)
    from existing(1) have "spec_getAllReplicaSetsAndSyncRevision d False w =
        ((Some rs, oldRSs, None), s1)" by simp
    from getAll_False[OF this] have "creations s1 = creations w" by (simp add: creations_def)
    moreover from existing(2) have "creations s2 = creations s1"
      by (simp add: scaleDownOldReplicaSetsForRecreate_def loop_creations)
    moreover from existing(3) run
    have "rolloutRecreate_scaleUp specified_controller d (Some rs) oldRSs
            (map Some oldRSs @ [Some rs]) s2 = (r, w')" by simp
    from scaleUp_phase_creations[OF this] have "creations w' = creations s2" .
    ultimately show ?thesis using cr by simp
  qed
  from k show "FindNewReplicaSet d (store w) = None" by simp
  from k show "\<not> list_ex (\<lambda>old. 0 < Spec_Replicas old) (FindOldReplicaSets d (store w))" by simp
qed


lemma creating_pass:
  assumes n: "FindNewReplicaSet d (store w) = None"
      and z: "list_all (\<lambda>old. Spec_Replicas old = 0) (FindOldReplicaSets d (store w))"
  shows "rolloutRecreate specified_controller d (w\<lparr>faults := None # None # None # rest\<rparr>) =
           rolloutRecreate_scaleUp specified_controller d (Some (newReplicaSetFor d))
             (FindOldReplicaSets d (store w))
             (map Some (FindOldReplicaSets d (store w)) @ [Some (newReplicaSetFor d)])
             (w\<lparr>store := newReplicaSetFor d # store w,
                operations := operations w @ [ListOp, ListOp, CreateOp (newReplicaSetFor d)],
                faults := rest\<rparr>)"
proof -
  let ?olds = "FindOldReplicaSets d (store w)"
  let ?w1 = "w\<lparr>operations := operations w @ [ListOp], faults := None # None # rest\<rparr>"
  let ?w3 = "w\<lparr>store := newReplicaSetFor d # store w,
                operations := operations w @ [ListOp, ListOp, CreateOp (newReplicaSetFor d)],
                faults := rest\<rparr>"
  have g1: "spec_getAllReplicaSetsAndSyncRevision d False (w\<lparr>faults := None # None # None # rest\<rparr>) =
              ((None, ?olds, None), ?w1)"
    using n by (simp add: spec_getAllReplicaSetsAndSyncRevision_def store_call_def Let_def)
  from z have "\<forall>rs \<in> set (FilterActiveReplicaSets ?olds). Spec_Replicas rs = 0"
    by (simp add: FilterActiveReplicaSets_def list_all_iff)
  from scaleDown_all_zero[OF this, of specified_controller d ?w1]
  have sd: "scaleDownOldReplicaSetsForRecreate specified_controller (FilterActiveReplicaSets ?olds) d ?w1 =
              ((False, None), ?w1)" by simp
  have g2: "spec_getAllReplicaSetsAndSyncRevision d True ?w1 =
              ((Some (newReplicaSetFor d), ?olds, None), ?w3)"
    using n by (simp add: spec_getAllReplicaSetsAndSyncRevision_def store_call_def Let_def)
  show ?thesis
    unfolding rolloutRecreate_def by (simp add: g1 sd g2)
qed

lemma created_then_scaled:
  assumes n: "FindNewReplicaSet d (store w) = None"
      and z: "list_all (\<lambda>old. Spec_Replicas old = 0) (FindOldReplicaSets d (store w))"
  shows "a = None \<or> Deployment_Replicas d = 0 \<Longrightarrow>
           FindNewReplicaSet d
             (store (snd (rolloutRecreate specified_controller d
                            (w\<lparr>faults := None # None # None # a # rest\<rparr>)))) =
           Some ((newReplicaSetFor d)\<lparr>Spec_Replicas := Deployment_Replicas d\<rparr>)"
    and "a \<noteq> None \<Longrightarrow> Deployment_Replicas d \<noteq> 0 \<Longrightarrow>
           rolloutRecreate specified_controller d (w\<lparr>faults := None # None # None # a # rest\<rparr>) =
           (a, w\<lparr>store := newReplicaSetFor d # store w,
                 operations := operations w @
                   [ListOp, ListOp, CreateOp (newReplicaSetFor d),
                    ConditionalUpdateOp (newReplicaSetFor d) (Deployment_Replicas d)],
                 faults := rest\<rparr>)"
proof -
  let ?new = "newReplicaSetFor d"
  let ?olds = "FindOldReplicaSets d (store w)"
  let ?all = "map Some ?olds @ [Some ?new]"
  let ?w3 = "w\<lparr>store := ?new # store w,
                operations := operations w @ [ListOp, ListOp, CreateOp ?new],
                faults := a # rest\<rparr>"
  note p = creating_pass[OF n z, of "a # rest"]
  have h: "TemplateHash ?new = Template d" and s0: "Spec_Replicas ?new = 0"
    by (simp_all add: newReplicaSetFor_def)
  have fn3: "FindNewReplicaSet d (store ?w3) = Some ?new"
    and fo3: "FindOldReplicaSets d (store ?w3) = ?olds"
    using h by simp_all
  {
    assume a: "a \<noteq> None" and k: "Deployment_Replicas d \<noteq> 0"
    from a obtain e where e: "a = Some e" by auto
    show "rolloutRecreate specified_controller d (w\<lparr>faults := None # None # None # a # rest\<rparr>) =
           (a, w\<lparr>store := ?new # store w,
                 operations := operations w @
                   [ListOp, ListOp, CreateOp ?new,
                    ConditionalUpdateOp ?new (Deployment_Replicas d)],
                 faults := rest\<rparr>)"
      unfolding p using k s0 e
      by (simp add: rolloutRecreate_scaleUp_def scaleUpNewReplicaSetForRecreate_def
          spec_scaleReplicaSetAndRecordEvent_def store_call_def)
  }
  {
    assume c: "a = None \<or> Deployment_Replicas d = 0"
    show "FindNewReplicaSet d
             (store (snd (rolloutRecreate specified_controller d
                            (w\<lparr>faults := None # None # None # a # rest\<rparr>)))) =
           Some (?new\<lparr>Spec_Replicas := Deployment_Replicas d\<rparr>)"
    proof (cases "Deployment_Replicas d = 0")
      case True
      with s0 have at: "Spec_Replicas ?new = Deployment_Replicas d" by simp
      obtain ce w4 where cl: "spec_cleanupDeployment (FindOldReplicaSets d (store ?w3)) d ?w3 = (ce, w4)"
        by (metis surj_pair)
      obtain r w5 where pr: "computeAndPersist ?all (Some ?new) d w4 = (r, w5)"
        by (metis surj_pair)
      from cl have cl': "spec_cleanupDeployment ?olds d ?w3 = (ce, w4)" using h by simp
      have "rolloutRecreate_scaleUp specified_controller d (Some ?new) ?olds ?all ?w3 = (r, w5)"
        by (simp add: rolloutRecreate_scaleUp_def scaleUpNewReplicaSetForRecreate_def
            scale_at_target[OF at] cl' pr)
      with p have "snd (rolloutRecreate specified_controller d
                            (w\<lparr>faults := None # None # None # a # rest\<rparr>)) = w5" by simp
      moreover from persist_result[OF pr] have "store w5 = store w4" by simp
      moreover from cleanup_of_olds(1)[OF cl] fn3
      have "FindNewReplicaSet d (store w4) = Some ?new" by simp
      moreover from True s0 have "?new\<lparr>Spec_Replicas := Deployment_Replicas d\<rparr> = ?new" by simp
      ultimately show ?thesis by simp
    next
      case False
      with c have a: "a = None" by simp
      let ?new' = "?new\<lparr>Spec_Replicas := Deployment_Replicas d\<rparr>"
      let ?w4 = "w\<lparr>store := ?new' # store w,
                operations := operations w @ [ListOp, ListOp, CreateOp ?new,
                   ConditionalUpdateOp ?new (Deployment_Replicas d)],
                events := events w @
                   [\<lparr> subject = Name ?new,
                      scaling = (if 0 < Deployment_Replicas d then ScaledUp else ScaledDown),
                      fromCount = 0, toCount = Deployment_Replicas d \<rparr>],
                faults := rest\<rparr>"
      have sc: "spec_scaleReplicaSetAndRecordEvent (Some ?new) (Deployment_Replicas d) d ?w3 =
                  ((True, Some ?new', None), ?w4)"
        using False s0 a
        by (simp add: spec_scaleReplicaSetAndRecordEvent_def store_call_def)
      obtain r w5 where pr: "computeAndPersist ?all (Some ?new) d ?w4 = (r, w5)"
        by (metis surj_pair)
      have "rolloutRecreate_scaleUp specified_controller d (Some ?new) ?olds ?all ?w3 = (r, w5)"
        by (simp add: rolloutRecreate_scaleUp_def scaleUpNewReplicaSetForRecreate_def sc pr)
      with p have "snd (rolloutRecreate specified_controller d
                            (w\<lparr>faults := None # None # None # a # rest\<rparr>)) = w5" by simp
      moreover from persist_result[OF pr] have "store w5 = ?new' # store w" by simp
      ultimately show ?thesis using h by simp
    qed
  }
qed

text \<open>
  C6. For every controller: the first call of a pass is a resolution that does not
  request creation. A resolution that requests creation is made exactly when the first
  resolution succeeded without a new replica set and the scale-down returned without
  error and without progress; when that second resolution succeeds, no call of the
  scale-down has scaled, and the next call of the pass scales the replica set that the
  resolution returned to the deployment's desired count.
  On the store of the specification: the first resolution leaves the store as it is and
  issues the listing only. A pass issues a create operation only from a state with no
  replica set of the current template and no old replica set with a desired count above
  zero. From such a state with the old replica sets at zero, when both listings and the
  creation succeed: if the conditional update of the scale-up succeeds, or the desired
  count is zero, the pass leaves the created replica set with the deployment's desired
  count; if that update fails, the pass returns its error and the created replica set
  stays in the store with zero desired replicas.
\<close>

theorem creation_is_deferred:
  "(\<exists>newRS oldRSs e rest.
      calls_of_pass dc deployment s = GetAllReplicaSets False newRS oldRSs e # rest)
   \<and> ((\<exists>c \<in> set (calls_of_pass dc deployment s). is_creating c) \<longleftrightarrow>
        (\<exists>oldRSs s1 s2.
           getAllReplicaSetsAndSyncRevision dc deployment False s = ((None, oldRSs, None), s1) \<and>
           scaleDownOldReplicaSetsForRecreate dc (FilterActiveReplicaSets oldRSs) deployment s1 =
             ((False, None), s2)))
   \<and> (getAllReplicaSetsAndSyncRevision dc deployment False s = ((None, oldRSs, None), s1) \<and>
        scaleDownOldReplicaSetsForRecreate dc (FilterActiveReplicaSets oldRSs) deployment s1 =
          ((False, None), s2) \<and>
        getAllReplicaSetsAndSyncRevision dc deployment True s2 = ((newRS', oldRSs', None), s3) \<longrightarrow>
          (\<forall>c \<in> set (calls_of_scaleDown dc (FilterActiveReplicaSets oldRSs) deployment s1).
             \<not> call_scaled c) \<and>
          (\<exists>scaledUp e rest.
             calls_of_pass dc deployment s =
               GetAllReplicaSets False None oldRSs None #
               calls_of_scaleDown dc (FilterActiveReplicaSets oldRSs) deployment s1 @
               GetAllReplicaSets True newRS' oldRSs' None #
               ScaleReplicaSet newRS' (Deployment_Replicas deployment) scaledUp e # rest))
   \<and> store (snd (getAllReplicaSetsAndSyncRevision specified_controller deployment False w)) =
       store w
   \<and> operations (snd (getAllReplicaSetsAndSyncRevision specified_controller deployment False w)) =
       operations w @ [ListOp]
   \<and> (creations (snd (rolloutRecreate specified_controller deployment w)) \<noteq> creations w \<longrightarrow>
        FindNewReplicaSet deployment (store w) = None \<and>
        \<not> list_ex (\<lambda>old. 0 < Spec_Replicas old) (FindOldReplicaSets deployment (store w)))
   \<and> (FindNewReplicaSet deployment (store w) = None \<and>
        list_all (\<lambda>old. Spec_Replicas old = 0) (FindOldReplicaSets deployment (store w)) \<longrightarrow>
          (a = None \<or> Deployment_Replicas deployment = 0 \<longrightarrow>
             FindNewReplicaSet deployment
               (store (snd (rolloutRecreate specified_controller deployment
                              (w\<lparr>faults := None # None # None # a # rest\<rparr>)))) =
             Some ((newReplicaSetFor deployment)\<lparr>Spec_Replicas := Deployment_Replicas deployment\<rparr>))
          \<and> (a \<noteq> None \<and> Deployment_Replicas deployment \<noteq> 0 \<longrightarrow>
               rolloutRecreate specified_controller deployment
                 (w\<lparr>faults := None # None # None # a # rest\<rparr>) =
               (a, w\<lparr>store := newReplicaSetFor deployment # store w,
                     operations := operations w @
                       [ListOp, ListOp, CreateOp (newReplicaSetFor deployment),
                        ConditionalUpdateOp (newReplicaSetFor deployment)
                          (Deployment_Replicas deployment)],
                     faults := rest\<rparr>)))"
proof (intro conjI impI)
  show "\<exists>newRS oldRSs e rest.
      calls_of_pass dc deployment s = GetAllReplicaSets False newRS oldRSs e # rest"
    using pass_calls_head[of dc deployment s] by (simp add: calls_of_pass_eq)
  show "(\<exists>c \<in> set (calls_of_pass dc deployment s). is_creating c) \<longleftrightarrow>
        (\<exists>oldRSs s1 s2.
           getAllReplicaSetsAndSyncRevision dc deployment False s = ((None, oldRSs, None), s1) \<and>
           scaleDownOldReplicaSetsForRecreate dc (FilterActiveReplicaSets oldRSs) deployment s1 =
             ((False, None), s2))"
    using pass_creating_iff[of dc deployment s] by (simp add: calls_of_pass_eq)
  obtain n os e w1 where
    g: "spec_getAllReplicaSetsAndSyncRevision deployment False w = ((n, os, e), w1)"
    by (metis prod_cases3 surj_pair)
  from getAll_False[OF g] g
  show "store (snd (getAllReplicaSetsAndSyncRevision specified_controller deployment False w)) =
       store w"
    and "operations (snd (getAllReplicaSetsAndSyncRevision specified_controller deployment False w)) =
       operations w @ [ListOp]"
    by simp_all
next
  assume a: "getAllReplicaSetsAndSyncRevision dc deployment False s = ((None, oldRSs, None), s1) \<and>
        scaleDownOldReplicaSetsForRecreate dc (FilterActiveReplicaSets oldRSs) deployment s1 =
          ((False, None), s2) \<and>
        getAllReplicaSetsAndSyncRevision dc deployment True s2 = ((newRS', oldRSs', None), s3)"
  then have g: "getAllReplicaSetsAndSyncRevision dc deployment False s = ((None, oldRSs, None), s1)"
    and sd: "scaleDownOldReplicaSetsForRecreate dc (FilterActiveReplicaSets oldRSs) deployment s1 =
          ((False, None), s2)"
    and g2: "getAllReplicaSetsAndSyncRevision dc deployment True s2 = ((newRS', oldRSs', None), s3)"
    by blast+
  from pass_creating_calls(1)[OF g sd g2]
  show "\<forall>c \<in> set (calls_of_scaleDown dc (FilterActiveReplicaSets oldRSs) deployment s1).
             \<not> call_scaled c" .
  from pass_creating_calls(2)[OF g sd g2]
  show "\<exists>scaledUp e rest.
             calls_of_pass dc deployment s =
               GetAllReplicaSets False None oldRSs None #
               calls_of_scaleDown dc (FilterActiveReplicaSets oldRSs) deployment s1 @
               GetAllReplicaSets True newRS' oldRSs' None #
               ScaleReplicaSet newRS' (Deployment_Replicas deployment) scaledUp e # rest" .
next
  assume cr: "creations (snd (rolloutRecreate specified_controller deployment w)) \<noteq> creations w"
  obtain r w' where run: "rolloutRecreate specified_controller deployment w = (r, w')"
    by (metis surj_pair)
  with cr have cr': "creations w' \<noteq> creations w" by simp
  from creation_needs_olds_down[OF run cr']
  show "FindNewReplicaSet deployment (store w) = None"
    and "\<not> list_ex (\<lambda>old. 0 < Spec_Replicas old) (FindOldReplicaSets deployment (store w))" .
next
  assume h: "FindNewReplicaSet deployment (store w) = None \<and>
        list_all (\<lambda>old. Spec_Replicas old = 0) (FindOldReplicaSets deployment (store w))"
  then have n: "FindNewReplicaSet deployment (store w) = None"
    and z: "list_all (\<lambda>old. Spec_Replicas old = 0) (FindOldReplicaSets deployment (store w))"
    by blast+
  {
    assume "a = None \<or> Deployment_Replicas deployment = 0"
    from created_then_scaled(1)[OF n z this]
    show "FindNewReplicaSet deployment
               (store (snd (rolloutRecreate specified_controller deployment
                              (w\<lparr>faults := None # None # None # a # rest\<rparr>)))) =
             Some ((newReplicaSetFor deployment)\<lparr>Spec_Replicas := Deployment_Replicas deployment\<rparr>)" .
  }
  {
    assume "a \<noteq> None \<and> Deployment_Replicas deployment \<noteq> 0"
    then have "a \<noteq> None" "Deployment_Replicas deployment \<noteq> 0" by blast+
    from created_then_scaled(2)[OF n z this]
    show "rolloutRecreate specified_controller deployment
                 (w\<lparr>faults := None # None # None # a # rest\<rparr>) =
               (a, w\<lparr>store := newReplicaSetFor deployment # store w,
                     operations := operations w @
                       [ListOp, ListOp, CreateOp (newReplicaSetFor deployment),
                        ConditionalUpdateOp (newReplicaSetFor deployment)
                          (Deployment_Replicas deployment)],
                     faults := rest\<rparr>)" .
  }
qed

theorem creation_is_deferred_witness:
  "FindNewReplicaSet web
     (store (snd (rolloutRecreate specified_controller web
                    (world_of [replica_set ''web-v2'' ''v2'' 0 0] [None, None, None, None])))) =
     Some (replica_set ''web-v3'' ''v3'' 5 0)
   \<and> calls_of_pass specified_controller web
       (world_of [replica_set ''web-v2'' ''v2'' 0 0] [None, None, None, None]) =
     [GetAllReplicaSets False None [replica_set ''web-v2'' ''v2'' 0 0] None,
      GetAllReplicaSets True (Some (replica_set ''web-v3'' ''v3'' 0 0))
        [replica_set ''web-v2'' ''v2'' 0 0] None,
      ScaleReplicaSet (Some (replica_set ''web-v3'' ''v3'' 0 0)) 5 True None,
      UpdateStatus [Some (replica_set ''web-v2'' ''v2'' 0 0), Some (replica_set ''web-v3'' ''v3'' 0 0)]
        (Some (replica_set ''web-v3'' ''v3'' 0 0)) None]"
proof -
  let ?w = "world_of [replica_set ''web-v2'' ''v2'' 0 0] []"
  have n: "FindNewReplicaSet web (store ?w) = None"
    by (simp add: world_of_def replica_set_def web_def)
  have z: "list_all (\<lambda>old. Spec_Replicas old = 0) (FindOldReplicaSets web (store ?w))"
    by (simp add: world_of_def replica_set_def web_def)
  have w0: "?w\<lparr>faults := None # None # None # None # []\<rparr> =
            world_of [replica_set ''web-v2'' ''v2'' 0 0] [None, None, None, None]"
    by (simp add: world_of_def)
  have new: "(newReplicaSetFor web)\<lparr>Spec_Replicas := Deployment_Replicas web\<rparr> =
             replica_set ''web-v3'' ''v3'' 5 0"
    by (simp add: newReplicaSetFor_def web_def replica_set_def)
  note t = creation_is_deferred[where dc = specified_controller and deployment = web and w = ?w
      and a = None and rest = "[]"]
  from t n z have "FindNewReplicaSet web
     (store (snd (rolloutRecreate specified_controller web
                    (?w\<lparr>faults := None # None # None # None # []\<rparr>)))) =
     Some ((newReplicaSetFor web)\<lparr>Spec_Replicas := Deployment_Replicas web\<rparr>)"
    by blast
  then have 1: "FindNewReplicaSet web
     (store (snd (rolloutRecreate specified_controller web
                    (world_of [replica_set ''web-v2'' ''v2'' 0 0] [None, None, None, None])))) =
     Some (replica_set ''web-v3'' ''v3'' 5 0)"
    unfolding w0 new .
  have 2: "calls_of_pass specified_controller web
       (world_of [replica_set ''web-v2'' ''v2'' 0 0] [None, None, None, None]) =
     [GetAllReplicaSets False None [replica_set ''web-v2'' ''v2'' 0 0] None,
      GetAllReplicaSets True (Some (replica_set ''web-v3'' ''v3'' 0 0))
        [replica_set ''web-v2'' ''v2'' 0 0] None,
      ScaleReplicaSet (Some (replica_set ''web-v3'' ''v3'' 0 0)) 5 True None,
      UpdateStatus [Some (replica_set ''web-v2'' ''v2'' 0 0), Some (replica_set ''web-v3'' ''v3'' 0 0)]
        (Some (replica_set ''web-v3'' ''v3'' 0 0)) None]"
    by (simp add: spec_defs calls_of_pass_eq pass_calls_def scaleUp_calls_def Let_def)
  from 1 2 show ?thesis by (intro conjI)
qed

text \<open>
  A replica set that a pass creates is not always scaled up in that pass. Below, the
  store holds one old replica set at zero; both listings and the creation succeed and
  the conditional update of the scale-up meets a conflict: the pass returns the conflict
  (lines 55 to 57), and \<open>web-v3\<close> is left in the store with zero desired replicas, while
  the deployment asks for five.
\<close>

theorem created_replica_set_left_at_zero:
  "rolloutRecreate specified_controller web
     (world_of [replica_set ''web-v2'' ''v2'' 0 0] [None, None, None, Some ConflictError]) =
     (Some ConflictError,
      \<lparr> store = [replica_set ''web-v3'' ''v3'' 0 0, replica_set ''web-v2'' ''v2'' 0 0],
        status = None, events = [],
        operations = [ListOp, ListOp, CreateOp (replica_set ''web-v3'' ''v3'' 0 0),
                      ConditionalUpdateOp (replica_set ''web-v3'' ''v3'' 0 0) 5],
        faults = [] \<rparr>)
   \<and> calls_of_pass specified_controller web
     (world_of [replica_set ''web-v2'' ''v2'' 0 0] [None, None, None, Some ConflictError]) =
     [GetAllReplicaSets False None [replica_set ''web-v2'' ''v2'' 0 0] None,
      GetAllReplicaSets True (Some (replica_set ''web-v3'' ''v3'' 0 0))
        [replica_set ''web-v2'' ''v2'' 0 0] None,
      ScaleReplicaSet (Some (replica_set ''web-v3'' ''v3'' 0 0)) 5 False (Some ConflictError)]
   \<and> Deployment_Replicas web = 5"
  by (simp add: spec_defs calls_of_pass_eq pass_calls_def scaleUp_calls_def Let_def)

end
